theory Spec2Isabelle
  imports Complex_Main
begin

section \<open>Strings, decimal numerals and paths\<close>

text \<open>
  Header values, file names and file contents are byte strings: a \<open>string\<close> is a list
  of 8-bit characters (code points below 256). Among these only \<open>0\<close> .. \<open>9\<close>
  (codes 48 to 57) are decimal digits, so the class \<open>\d\<close> of the regular expression
  is \<open>is_digit\<close>.
\<close>

type_synonym bytes = string

definition is_digit :: "char \<Rightarrow> bool" where
  "is_digit c = (48 \<le> (of_char c :: nat) \<and> (of_char c :: nat) \<le> 57)"

definition digit_val :: "char \<Rightarrow> int" where
  "digit_val c = int (of_char c) - 48"

text \<open>The value of a string of decimal digits.\<close>

definition decimal_value :: "string \<Rightarrow> int" where
  "decimal_value s = foldl (\<lambda>acc c. 10 * acc + digit_val c) 0 s"

definition digit_char :: "nat \<Rightarrow> char" where
  "digit_char n = char_of (48 + n)"

text \<open>\<open>str(n)\<close> for an integer: decimal digits, most significant first, a sign when negative.\<close>

function str_nat :: "nat \<Rightarrow> string" where
  "str_nat n = (if n < 10 then [digit_char n] else str_nat (n div 10) @ [digit_char (n mod 10)])"
  by pat_completeness auto
termination
  by (relation "measure id") auto

declare str_nat.simps [simp del]

definition str_int :: "int \<Rightarrow> string" where
  "str_int i = (if i < 0 then CHR ''-'' # str_nat (nat (- i)) else str_nat (nat i))"

text \<open>An exception deriving from \<open>Exception\<close>, with the text \<open>str(e)\<close> gives.\<close>

datatype exn = Exn string

fun str_exn :: "exn \<Rightarrow> string" where
  "str_exn (Exn m) = m"

text \<open>
  \<open>int(s)\<close> on a string. Surrounding whitespace is stripped (tab, line feed, vertical
  tab, form feed, carriage return, space, and the two blanks 133 and 160 above ASCII; the
  separators 28 to 31 are not stripped), one sign is allowed, and single underscores may
  separate digits; anything else is a \<open>ValueError\<close>. Python integers are unbounded,
  but the conversion raises a \<open>ValueError\<close> as well when the string has more digits
  (leading zeros counted, underscores not) than the interpreter's limit, 4300 by default.
  The text of the first error is abbreviated.
\<close>

definition int_max_str_digits :: nat where
  "int_max_str_digits = 4300"

definition is_space :: "char \<Rightarrow> bool" where
  "is_space c = ((of_char c :: nat) \<in> set [9, 10, 11, 12, 13, 32, 133, 160])"

definition strip :: "string \<Rightarrow> string" where
  "strip s = rev (dropWhile is_space (rev (dropWhile is_space s)))"

fun valid_digits :: "string \<Rightarrow> bool" where
  "valid_digits [] = False"
| "valid_digits [c] = is_digit c"
| "valid_digits (c # d # r) =
     (is_digit c \<and> (if d = CHR ''_'' then valid_digits r else valid_digits (d # r)))"

definition digits_limit_error :: "nat \<Rightarrow> exn" where
  "digits_limit_error n =
     Exn (''Exceeds the limit ('' @ str_nat int_max_str_digits
            @ '' digits) for integer string conversion: value has '' @ str_nat n
            @ '' digits; use sys.set_int_max_str_digits() to increase the limit'')"

definition py_int :: "string \<Rightarrow> exn + int" where
  "py_int s =
     (case strip s of
        [] \<Rightarrow> Inl (Exn ''invalid literal for int() with base 10'')
      | c # r \<Rightarrow>
          (let neg = (c = CHR ''-'');
               u = (if c = CHR ''-'' \<or> c = CHR ''+'' then r else c # r);
               digits = filter (\<lambda>x. x \<noteq> CHR ''_'') u
           in if valid_digits u then
                (if int_max_str_digits < length digits then Inl (digits_limit_error (length digits))
                 else Inr ((if neg then - 1 else 1) * decimal_value digits))
              else Inl (Exn ''invalid literal for int() with base 10'')))"

text \<open>
  \<open>os.path.join\<close> on POSIX for two components: an absolute second component
  discards the first; otherwise exactly one separator is put between them.
\<close>

definition os_path_join :: "string \<Rightarrow> string \<Rightarrow> string" where
  "os_path_join a b =
     (if b \<noteq> [] \<and> hd b = CHR ''/'' then b
      else if a = [] \<or> last a = CHR ''/'' then a @ b
      else a @ ''/'' @ b)"

text \<open>\<open>sub in s\<close> for strings, and \<open>s.startswith(prefix)\<close>.\<close>

fun is_prefix :: "string \<Rightarrow> string \<Rightarrow> bool" where
  "is_prefix [] s = True"
| "is_prefix (p # ps) [] = False"
| "is_prefix (p # ps) (c # cs) = (p = c \<and> is_prefix ps cs)"

fun contains :: "string \<Rightarrow> string \<Rightarrow> bool" where
  "contains sub [] = (sub = [])"
| "contains sub (c # cs) = (is_prefix sub (c # cs) \<or> contains sub cs)"

definition startswith :: "string \<Rightarrow> string \<Rightarrow> bool" where
  "startswith s p = is_prefix p s"

section \<open>Range Resolver\<close>

text \<open>
  \<open>re.search(r'(\d+)-(\d*)', s)\<close>. At one position the pattern matches exactly when
  the maximal run of digits there is non-empty and is followed by a dash: a shorter
  first group would be followed by a digit, so backtracking into \<open>\d+\<close> never helps.
  The second group is the maximal run of digits after the dash. \<open>re_search\<close> tries the
  positions from left to right and returns the two groups of the first match.
\<close>

definition re_match_here :: "string \<Rightarrow> (string \<times> string) option" where
  "re_match_here s =
     (let g1 = takeWhile is_digit s; r = dropWhile is_digit s
      in if g1 = [] then None
         else (case r of
                 [] \<Rightarrow> None
               | c # t \<Rightarrow> if c = CHR ''-'' then Some (g1, takeWhile is_digit t) else None))"

fun re_search :: "string \<Rightarrow> (string \<times> string) option" where
  "re_search [] = re_match_here []"
| "re_search (c # cs) =
     (case re_match_here (c # cs) of Some m \<Rightarrow> Some m | None \<Rightarrow> re_search cs)"

text \<open>
  The resolver returns the interval, or the \<open>ValueError\<close> that \<open>int\<close> raises on
  a group of too many digits: the source has no handler for it.
\<close>

definition parse_range_header :: "string \<Rightarrow> int \<Rightarrow> exn + (int \<times> int)" where
  "parse_range_header range_header file_size =
     (case re_search range_header of
        None \<Rightarrow> Inr (0, file_size - 1)
      | Some (g1, g2) \<Rightarrow>
          (case (if g1 \<noteq> [] then py_int g1 else Inr 0) of
             Inl e \<Rightarrow> Inl e
           | Inr start_pos \<Rightarrow>
               (case (if g2 \<noteq> [] then py_int g2 else Inr (file_size - 1)) of
                  Inl e \<Rightarrow> Inl e
                | Inr end_pos \<Rightarrow>
                    (let start_pos' = max 0 (min start_pos (file_size - 1));
                         end_pos' = max start_pos' (min end_pos (file_size - 1))
                     in Inr (start_pos', end_pos')))))"

section \<open>Content Delivery\<close>

text \<open>
  The files the server can read: a path names a regular file with its contents, or
  nothing. \<open>open(path, 'rb')\<close> raises when the path is not a regular file; a read of an
  existing file succeeds.
\<close>

type_synonym filesystem = "string \<Rightarrow> bytes option"

datatype fs_op = Getcwd | IsFile string | GetSize string | OpenRead string

record response =
  status :: nat
  body :: bytes
  headers :: "string \<Rightarrow> string option"

definition make_response :: "bytes \<Rightarrow> nat \<Rightarrow> response" where
  "make_response content code = \<lparr>status = code, body = content, headers = Map.empty\<rparr>"

definition headers_set :: "string \<Rightarrow> string \<Rightarrow> response \<Rightarrow> response" where
  "headers_set k v r = r\<lparr>headers := (headers r)(k \<mapsto> v)\<rparr>"

text \<open>\<open>response.headers.get(k)\<close>.\<close>

definition headers_get :: "string \<Rightarrow> response \<Rightarrow> string option" where
  "headers_get k r = headers r k"

text \<open>
  \<open>file.seek(start_pos)\<close> raises on a negative offset; \<open>file.read(n)\<close> returns at
  most \<open>n\<close> bytes from the current offset, everything up to the end of the file when
  \<open>n = -1\<close>, and raises when \<open>n < -1\<close>. \<open>None\<close> stands for the raised exception.
\<close>

definition seek_read :: "bytes \<Rightarrow> int \<Rightarrow> int \<Rightarrow> bytes option" where
  "seek_read data start_pos n =
     (if start_pos < 0 then None
      else if n < - 1 then None
      else if n = - 1 then Some (drop (nat start_pos) data)
      else Some (take (nat n) (drop (nat start_pos) data)))"

definition make_partial_response :: "filesystem \<Rightarrow> string \<Rightarrow> int \<Rightarrow> int \<Rightarrow> int \<Rightarrow> response" where
  "make_partial_response fs file_path start_pos end_pos file_size =
     (case fs file_path of
        None \<Rightarrow> make_response ''Error reading file'' 500
      | Some data \<Rightarrow>
          (let content_length = end_pos - start_pos + 1
           in case seek_read data start_pos content_length of
                None \<Rightarrow> make_response ''Error reading file'' 500
              | Some content \<Rightarrow>
                  (let response = make_response content 200;
                       response =
                         headers_set ''Content-Range''
                           (''bytes '' @ str_int start_pos @ ''-'' @ str_int end_pos
                              @ ''/'' @ str_int file_size) response;
                       response = headers_set ''Content-Length'' (str_int content_length) response
                   in response\<lparr>status := 206\<rparr>)))"

definition make_entire_response :: "filesystem \<Rightarrow> string \<Rightarrow> int \<Rightarrow> response" where
  "make_entire_response fs file_path file_size =
     (case fs file_path of
        None \<Rightarrow> make_response ''Error reading file'' 500
      | Some content \<Rightarrow>
          headers_set ''Content-Length'' (str_int file_size) (make_response content 200))"

text \<open>
  The handler of \<open>/audios/<filename>\<close>, after the rate-limit gate. It returns the
  response together with the filesystem operations it performed, in order; the result
  \<open>Inl e\<close> is an exception that leaves the handler, which the framework answers with
  status 500. \<open>range_header\<close> is \<open>None\<close> when the request has no Range header; an
  empty header value is falsy and is treated the same way.
\<close>

definition serve_audio ::
  "string \<Rightarrow> filesystem \<Rightarrow> string \<Rightarrow> string option \<Rightarrow> (exn + response) \<times> fs_op list" where
  "serve_audio cwd fs filename range_header =
     (let root_dir = cwd;
          file_path = os_path_join (os_path_join root_dir ''audios'') filename
      in if contains ''..'' filename \<or> startswith filename ''/''
         then (Inr (make_response ''Invalid filename'' 400), [Getcwd])
         else (case fs file_path of
                 None \<Rightarrow>
                   (Inr (make_response ''Audio file not found'' 404), [Getcwd, IsFile file_path])
               | Some data \<Rightarrow>
                   (let file_size = int (length data);
                        made =
                          (case range_header of
                             None \<Rightarrow> Inr (make_entire_response fs file_path file_size)
                           | Some h \<Rightarrow>
                               if h \<noteq> [] then
                                 (case parse_range_header h file_size of
                                    Inl e \<Rightarrow> Inl e
                                  | Inr (start_pos, end_pos) \<Rightarrow>
                                      Inr (make_partial_response fs file_path start_pos end_pos
                                             file_size))
                               else Inr (make_entire_response fs file_path file_size))
                    in case made of
                         Inl e \<Rightarrow> (Inl e, [Getcwd, IsFile file_path, GetSize file_path])
                       | Inr response \<Rightarrow>
                           (let response = headers_set ''Access-Control-Allow-Origin'' ''*'' response;
                                response = headers_set ''Access-Control-Allow-Methods'' ''GET'' response;
                                response = headers_set ''Content-Type'' ''audio/mpeg'' response
                            in (Inr response,
                                [Getcwd, IsFile file_path, GetSize file_path, OpenRead file_path])))))"

section \<open>Fetch Pipeline\<close>

text \<open>
  JSON values as the handlers build them: a Python dict literal is an object whose keys
  keep the order of the literal. \<open>json.dumps\<close> and \<open>jsonify\<close> serialise such a value;
  the model keeps the value itself.
\<close>

datatype json = JNull | JStr string | JInt int | JObj "(string \<times> json) list" | JArr "json list"

definition RETENTION_PERIOD :: int where
  "RETENTION_PERIOD = 2 * 60 * 60"

text \<open>\<open>int(x)\<close> on a number truncates towards zero.\<close>

definition py_trunc :: "rat \<Rightarrow> int" where
  "py_trunc t = (if 0 \<le> t then \<lfloor>t\<rfloor> else \<lceil>t\<rceil>)"

definition os_path_basename :: "string \<Rightarrow> string" where
  "os_path_basename p = rev (takeWhile (\<lambda>c. c \<noteq> CHR ''/'') (rev p))"

definition os_path_head :: "string \<Rightarrow> string" where
  "os_path_head p = rev (dropWhile (\<lambda>c. c \<noteq> CHR ''/'') (rev p))"

text \<open>
  \<open>os.path.splitext\<close>: the extension starts at the last dot of the last path
  component, unless only dots precede it there.
\<close>

definition os_path_splitext :: "string \<Rightarrow> string \<times> string" where
  "os_path_splitext p =
     (let base = os_path_basename p
      in if CHR ''.'' \<notin> set base then (p, [])
         else (let before_dot = rev (tl (dropWhile (\<lambda>c. c \<noteq> CHR ''.'') (rev base)));
                   ext = CHR ''.'' # rev (takeWhile (\<lambda>c. c \<noteq> CHR ''.'') (rev base))
               in if \<forall>c \<in> set before_dot. c = CHR ''.'' then (p, [])
                  else (os_path_head p @ before_dot, ext)))"

definition rstrip_slash :: "string \<Rightarrow> string" where
  "rstrip_slash s = rev (dropWhile (\<lambda>c. c = CHR ''/'') (rev s))"

text \<open>
  What the handler reads from the extractor's info dictionary: \<open>duration\<close> is a
  number of seconds or \<open>None\<close>, \<open>thumbnail\<close> a URL or \<open>None\<close>.
\<close>

record info_dict =
  duration :: "rat option"
  thumbnail :: "string option"

text \<open>
  The external capabilities and the request context of one \<open>/download\<close> request.
  Each capability returns its result or the exception it raises; setting the extractor
  up is part of the probe. \<open>time_time\<close> is what \<open>time.time()\<close> returns.
\<close>

record download_env =
  extract_info_probe :: "string \<Rightarrow> exn + info_dict"
  extract_info_download :: "string \<Rightarrow> exn + info_dict"
  prepare_filename :: "info_dict \<Rightarrow> exn + string"
  audio_convert :: "string \<Rightarrow> exn + unit"
  time_time :: rat
  url_root :: string

datatype action = Probe string | Download string | PrepareFilename | Compress string

text \<open>\<open>compress_audio\<close> logs and re-raises whatever the conversion raises.\<close>

definition compress_audio :: "download_env \<Rightarrow> string \<Rightarrow> exn + unit" where
  "compress_audio env file_path = audio_convert env file_path"

definition error_payload :: "exn \<Rightarrow> json" where
  "error_payload e = JObj [(''error'', JStr (''Error processing video: '' @ str_exn e))]"

definition gate_payload :: json where
  "gate_payload = JObj [(''error'', JStr ''Video duration must be less than or equal to 5 minutes.'')]"

definition json_opt_str :: "string option \<Rightarrow> json" where
  "json_opt_str v = (case v of None \<Rightarrow> JNull | Some s \<Rightarrow> JStr s)"

text \<open>\<open>duration and duration <= 300\<close>: \<open>None\<close> and zero are falsy.\<close>

definition duration_admitted :: "rat option \<Rightarrow> bool" where
  "duration_admitted d = (case d of None \<Rightarrow> False | Some x \<Rightarrow> x \<noteq> 0 \<and> x \<le> 300)"

text \<open>
  The generator of the \<open>/download\<close> response: the chunks it yields and the external
  calls it made, in order. Every path of the source yields exactly one chunk.
\<close>

definition generate :: "download_env \<Rightarrow> string \<Rightarrow> string \<Rightarrow> json list \<times> action list" where
  "generate env host_url video_url =
     (case extract_info_probe env video_url of
        Inl e \<Rightarrow> ([error_payload e], [Probe video_url])
      | Inr info \<Rightarrow>
          if duration_admitted (duration info) then
            (case extract_info_download env video_url of
               Inl e \<Rightarrow> ([error_payload e], [Probe video_url, Download video_url])
             | Inr info_dl \<Rightarrow>
                 (case prepare_filename env info_dl of
                    Inl e \<Rightarrow> ([error_payload e], [Probe video_url, Download video_url, PrepareFilename])
                  | Inr audio_file_path \<Rightarrow>
                      (let thumbnail_url = thumbnail info_dl;
                           file_name = os_path_basename (fst (os_path_splitext audio_file_path));
                           expiration_timestamp = py_trunc (time_time env) + RETENTION_PERIOD;
                           mp3_path = ''audios/'' @ file_name @ ''.mp3''
                       in case compress_audio env mp3_path of
                            Inl e \<Rightarrow>
                              ([error_payload e],
                               [Probe video_url, Download video_url, PrepareFilename, Compress mp3_path])
                          | Inr u \<Rightarrow>
                              (let base_url = rstrip_slash (url_root env);
                                   response_dict =
                                     JObj [(''img'', json_opt_str thumbnail_url),
                                           (''direct_link'',
                                            JStr (base_url @ ''/audios/'' @ file_name @ ''.mp3'')),
                                           (''expiration_timestamp'', JInt expiration_timestamp)]
                               in ([response_dict],
                                   [Probe video_url, Download video_url, PrepareFilename,
                                    Compress mp3_path])))))
          else ([gate_payload], [Probe video_url]))"

record json_response =
  j_status :: nat
  j_chunks :: "json list"

text \<open>
  The handler of \<open>/download\<close>, after the rate-limit gate. \<open>video_url\<close> is \<open>None\<close>
  when the parameter is missing; an empty value is falsy as well.
\<close>

definition download_audio ::
  "download_env \<Rightarrow> string \<Rightarrow> string option \<Rightarrow> json_response \<times> action list" where
  "download_audio env base_url video_url =
     (case video_url of
        None \<Rightarrow>
          (\<lparr>j_status = 400,
            j_chunks = [JObj [(''error'', JStr ''video_url parameter is required'')]]\<rparr>, [])
      | Some v \<Rightarrow>
          if v = [] then
            (\<lparr>j_status = 400,
              j_chunks = [JObj [(''error'', JStr ''video_url parameter is required'')]]\<rparr>, [])
          else (let host_url = base_url @ ''/''
                in case generate env host_url v of
                     (chunks, acts) \<Rightarrow> (\<lparr>j_status = 200, j_chunks = chunks\<rparr>, acts)))"

fun json_get :: "json \<Rightarrow> string \<Rightarrow> json option" where
  "json_get (JObj kvs) k = map_of kvs k"
| "json_get j k = None"

section \<open>Search\<close>

text \<open>\<open>s.split(sep)\<close> for a one-character separator.\<close>

fun split_on :: "char \<Rightarrow> string \<Rightarrow> string list" where
  "split_on sep [] = [[]]"
| "split_on sep (x # xs) =
     (if x = sep then [] # split_on sep xs
      else (case split_on sep xs of [] \<Rightarrow> [[x]] | p # ps \<Rightarrow> (x # p) # ps))"

text \<open>
  One catalog result. Every result carries the keys \<open>title\<close>, \<open>link\<close> and
  \<open>thumbnails\<close> (the URLs of its thumbnails, possibly none); the key \<open>duration\<close>
  may be absent, null, or a text.
\<close>

datatype duration_field = DurationAbsent | DurationNull | DurationText string

record video =
  v_title :: string
  v_link :: string
  v_thumbnails :: "string list"
  v_duration :: duration_field

definition search_entry :: "video \<Rightarrow> json" where
  "search_entry v =
     JObj [(''title'', JStr (v_title v)),
           (''url'', JStr (v_link v)),
           (''thumbnail'', JStr (if v_thumbnails v \<noteq> [] then hd (v_thumbnails v) else []))]"

text \<open>
  The test of the loop body on the duration text: a colon, exactly two parts, both
  integers (a \<open>ValueError\<close> skips the entry), and fewer than 300 seconds in total.
\<close>

definition duration_short :: "string \<Rightarrow> bool" where
  "duration_short d =
     (if CHR '':'' \<in> set d then
        (let parts = split_on CHR '':'' d
         in if length parts = 2 then
              (case py_int (parts ! 0) of
                 Inl e \<Rightarrow> False
               | Inr minutes \<Rightarrow>
                   (case py_int (parts ! 1) of
                      Inl e \<Rightarrow> False
                    | Inr seconds \<Rightarrow> minutes * 60 + seconds < 300))
            else False)
      else False)"

text \<open>
  The loop over the catalog results. A null duration makes \<open>":" in duration\<close> raise
  a \<open>TypeError\<close>, which the inner handler does not catch; an absent one defaults to
  the empty text.
\<close>

fun search_loop :: "video list \<Rightarrow> json list \<Rightarrow> exn + json list" where
  "search_loop [] search_results = Inr search_results"
| "search_loop (v # vs) search_results =
     (case v_duration v of
        DurationNull \<Rightarrow> Inl (Exn ''argument of type NoneType is not iterable'')
      | DurationAbsent \<Rightarrow>
          (if duration_short [] then search_loop vs (search_results @ [search_entry v])
           else search_loop vs search_results)
      | DurationText d \<Rightarrow>
          (if duration_short d then search_loop vs (search_results @ [search_entry v])
           else search_loop vs search_results))"

text \<open>The handler of \<open>/search\<close>, after the rate-limit gate; \<open>catalog\<close> is the external search.\<close>

definition search :: "(string \<Rightarrow> exn + video list) \<Rightarrow> string option \<Rightarrow> json_response" where
  "search catalog q =
     (case q of
        None \<Rightarrow> \<lparr>j_status = 200, j_chunks = [JObj [(''error'', JStr ''Invalid search query'')]]\<rparr>
      | Some qs \<Rightarrow>
          if length qs = 0 then
            \<lparr>j_status = 200, j_chunks = [JObj [(''error'', JStr ''Invalid search query'')]]\<rparr>
          else (case catalog qs of
                  Inl e \<Rightarrow> \<lparr>j_status = 500, j_chunks = [JObj [(''error'', JStr ''Search failed'')]]\<rparr>
                | Inr results \<Rightarrow>
                    (case search_loop results [] of
                       Inl e \<Rightarrow>
                         \<lparr>j_status = 500, j_chunks = [JObj [(''error'', JStr ''Search failed'')]]\<rparr>
                     | Inr search_results \<Rightarrow>
                         \<lparr>j_status = 200, j_chunks = [JObj [(''search'', JArr search_results)]]\<rparr>)))"

section \<open>Retention Sweeper\<close>

text \<open>
  The cache directory \<open>audios\<close>: absent, present but not a directory, or a directory
  with its entries in the order \<open>os.listdir\<close> returns them. A regular file has its
  modification time; \<open>removable\<close> says whether \<open>os.remove\<close> succeeds on it. The
  texts of the operating system's errors are abbreviated.
\<close>

datatype node = RegFile (mtime: rat) (removable: bool) | Directory

datatype audios_dir = Absent | NotADirectory | Dir "(string \<times> node) list"

datatype log_entry = LogInfo string | LogError string

definition isfile :: "(string \<times> node) list \<Rightarrow> string \<Rightarrow> bool" where
  "isfile d name = (case map_of d name of Some (RegFile m r) \<Rightarrow> True | _ \<Rightarrow> False)"

definition getmtime :: "(string \<times> node) list \<Rightarrow> string \<Rightarrow> rat" where
  "getmtime d name = (case map_of d name of Some (RegFile m r) \<Rightarrow> m | _ \<Rightarrow> 0)"

definition os_remove :: "(string \<times> node) list \<Rightarrow> string \<Rightarrow> exn + (string \<times> node) list" where
  "os_remove d name =
     (case map_of d name of
        Some (RegFile m r) \<Rightarrow>
          if r then Inr (filter (\<lambda>kv. fst kv \<noteq> name) d)
          else Inl (Exn (''[Errno 13] Permission denied: '' @ os_path_join ''audios'' name))
      | _ \<Rightarrow> Inl (Exn (''[Errno 2] No such file or directory: '' @ os_path_join ''audios'' name)))"

text \<open>
  The loop over the listing. \<open>getmtime\<close> is only read when \<open>isfile\<close> holds, as the
  short-circuit \<open>and\<close> of the source does.
\<close>

fun sweep_loop ::
  "int \<Rightarrow> string list \<Rightarrow> (string \<times> node) list \<Rightarrow> log_entry list
     \<Rightarrow> (string \<times> node) list \<times> log_entry list" where
  "sweep_loop current_timestamp [] d lg = (d, lg)"
| "sweep_loop current_timestamp (file_name # rest) d lg =
     (let file_path = os_path_join ''audios'' file_name
      in if isfile d file_name
            \<and> of_int current_timestamp > getmtime d file_name + of_int RETENTION_PERIOD
         then (case os_remove d file_name of
                 Inr d' \<Rightarrow>
                   sweep_loop current_timestamp rest d'
                     (lg @ [LogInfo (''Deleted expired file: '' @ file_path)])
               | Inl e \<Rightarrow>
                   sweep_loop current_timestamp rest d
                     (lg @ [LogError (''Error deleting file '' @ file_path @ '': '' @ str_exn e)]))
         else sweep_loop current_timestamp rest d lg)"

text \<open>
  One pass of the sweep at wall-clock time \<open>now_time\<close>: the directory afterwards and
  the log records written.
\<close>

definition delete_expired_files :: "rat \<Rightarrow> audios_dir \<Rightarrow> audios_dir \<times> log_entry list" where
  "delete_expired_files now_time audios =
     (let current_timestamp = py_trunc now_time
      in case audios of
           Absent \<Rightarrow> (Absent, [])
         | NotADirectory \<Rightarrow>
             (NotADirectory,
              [LogError ''Error in delete_expired_files: [Errno 20] Not a directory: audios''])
         | Dir d \<Rightarrow>
             (case sweep_loop current_timestamp (map fst d) d [] of
                (d', lg) \<Rightarrow> (Dir d', lg)))"

section \<open>The specification's response shapes\<close>

text \<open>
  The partial-content response as the specification words it, for the bytes
  \<open>start_pos\<close> .. \<open>end_pos\<close> of a file with contents \<open>data\<close>: status 206,
  \<open>Content-Range: bytes start-end/size\<close>, \<open>Content-Length = end - start + 1\<close>, and
  a body of exactly that many bytes, those of the file from offset \<open>start_pos\<close> on.
\<close>

definition spec_partial_content :: "bytes \<Rightarrow> int \<Rightarrow> int \<Rightarrow> response \<Rightarrow> bool" where
  "spec_partial_content data start_pos end_pos r =
     (status r = 206
      \<and> headers r ''Content-Range''
            = Some (''bytes '' @ str_int start_pos @ ''-'' @ str_int end_pos
                      @ ''/'' @ str_int (int (length data)))
      \<and> headers r ''Content-Length'' = Some (str_int (end_pos - start_pos + 1))
      \<and> int (length (body r)) = end_pos - start_pos + 1
      \<and> body r = take (nat (end_pos - start_pos + 1)) (drop (nat start_pos) data))"

text \<open>
  The full-content response as the specification words it: status 200,
  \<open>Content-Length = size\<close>, the whole file as body.
\<close>

definition spec_full_content :: "bytes \<Rightarrow> response \<Rightarrow> bool" where
  "spec_full_content data r =
     (status r = 200
      \<and> headers r ''Content-Length'' = Some (str_int (int (length data)))
      \<and> body r = data)"

text \<open>
  The specification's retention test at the sweep's timestamp \<open>now\<close>: a regular
  file is expired when \<open>now - mtime > RETENTION_PERIOD\<close>.
\<close>

definition expired :: "int \<Rightarrow> node \<Rightarrow> bool" where
  "expired now n =
     (case n of RegFile m r \<Rightarrow> of_int now - m > of_int RETENTION_PERIOD | Directory \<Rightarrow> False)"

definition deletable :: "node \<Rightarrow> bool" where
  "deletable n = (case n of RegFile m r \<Rightarrow> r | Directory \<Rightarrow> False)"

text \<open>The log record the sweep writes for an expired regular file.\<close>

definition sweep_record :: "string \<times> node \<Rightarrow> log_entry" where
  "sweep_record kv =
     (if deletable (snd kv)
      then LogInfo (''Deleted expired file: '' @ os_path_join ''audios'' (fst kv))
      else LogError (''Error deleting file '' @ os_path_join ''audios'' (fst kv)
                       @ '': [Errno 13] Permission denied: '' @ os_path_join ''audios'' (fst kv)))"

text \<open>The entries of the cache directory after one pass of the sweep over the entries \<open>d\<close>.\<close>

definition entries_after :: "rat \<Rightarrow> (string \<times> node) list \<Rightarrow> (string \<times> node) list" where
  "entries_after now_time d =
     (case fst (delete_expired_files now_time (Dir d)) of Dir d' \<Rightarrow> d' | _ \<Rightarrow> [])"

text \<open>A catalog result passes the search filter when its duration text is short.\<close>

definition passes_filter :: "video \<Rightarrow> bool" where
  "passes_filter v =
     (case v_duration v of DurationText d \<Rightarrow> duration_short d | _ \<Rightarrow> False)"

section \<open>Example inputs\<close>

text \<open>
  An extractor whose probe reports the duration \<open>d\<close> and whose download, file naming
  and conversion succeed.
\<close>

definition env_with_duration :: "rat option \<Rightarrow> download_env" where
  "env_with_duration d =
     \<lparr>extract_info_probe = (\<lambda>u. Inr \<lparr>duration = d, thumbnail = Some ''http://img/t.jpg''\<rparr>),
      extract_info_download = (\<lambda>u. Inr \<lparr>duration = d, thumbnail = Some ''http://img/t.jpg''\<rparr>),
      prepare_filename = (\<lambda>i. Inr ''audios/abc123.webm''),
      audio_convert = (\<lambda>p. Inr ()),
      time_time = 1000,
      url_root = ''http://host/''\<rparr>"

text \<open>The same extractor with a download that raises.\<close>

definition env_download_fails :: download_env where
  "env_download_fails =
     (env_with_duration (Some 120))
       \<lparr>extract_info_download := (\<lambda>u. Inl (Exn ''HTTP Error 403: Forbidden''))\<rparr>"

definition video_of :: "string \<Rightarrow> video" where
  "video_of d =
     \<lparr>v_title = ''title'', v_link = ''http://video/1'', v_thumbnails = [''http://img/1.jpg''],
      v_duration = DurationText d\<rparr>"

text \<open>Ten catalog results: three longer than five minutes, one of exactly five minutes.\<close>

definition ten_results :: "video list" where
  "ten_results =
     map video_of [''10:00'', ''3:00'', ''3:00'', ''12:30'', ''3:00'', ''5:00'', ''3:00'', ''3:00'',
                   ''7:15'', ''3:00'']"

text \<open>Ten catalog results: three longer than five minutes, seven shorter.\<close>

definition ten_short_results :: "video list" where
  "ten_short_results =
     map video_of [''10:00'', ''3:00'', ''0:45'', ''12:30'', ''4:59'', ''2:10'', ''3:00'', ''1:00'',
                   ''7:15'', ''3:33'']"

text \<open>
  A cache directory: two expired files that can be deleted, one expired file whose
  deletion fails, a subdirectory and a young file.
\<close>

definition example_dir :: "(string \<times> node) list" where
  "example_dir =
     [(''a.mp3'', RegFile 100 True), (''c.mp3'', RegFile 5 False), (''d'', Directory),
      (''e.mp3'', RegFile 2799 True), (''f.mp3'', RegFile 9000 True)]"

section \<open>Auxiliary facts: numerals, strings and the regular expression\<close>

lemma digit_val_digit_char: "n < 10 \<Longrightarrow> digit_val (digit_char n) = int n"
  by (simp add: digit_val_def digit_char_def)

lemma is_digit_digit_char: "n < 10 \<Longrightarrow> is_digit (digit_char n)"
  by (simp add: is_digit_def digit_char_def)

lemma str_nat_digits: "\<forall>c \<in> set (str_nat n). is_digit c"
proof (induction n rule: str_nat.induct)
  case (1 n)
  show ?case
  proof (cases "n < 10")
    case True
    then show ?thesis by (simp add: str_nat.simps [of n] is_digit_digit_char)
  next
    case False
    with "1" show ?thesis by (simp add: str_nat.simps [of n] is_digit_digit_char)
  qed
qed

lemma str_nat_nonempty: "str_nat n \<noteq> []"
  by (simp add: str_nat.simps [of n])

lemma decimal_value_snoc: "decimal_value (s @ [c]) = 10 * decimal_value s + digit_val c"
  by (simp add: decimal_value_def)

lemma decimal_value_str_nat: "decimal_value (str_nat n) = int n"
proof (induction n rule: str_nat.induct)
  case (1 n)
  show ?case
  proof (cases "n < 10")
    case True
    then show ?thesis by (simp add: str_nat.simps [of n] decimal_value_def digit_val_digit_char)
  next
    case False
    with "1" have "decimal_value (str_nat (n div 10)) = int (n div 10)" by simp
    moreover have "10 * int (n div 10) + int (n mod 10) = int n"
      by presburger
    ultimately show ?thesis
      using False by (simp add: str_nat.simps [of n] decimal_value_snoc digit_val_digit_char)
  qed
qed

lemma decimal_value_nonneg: "\<forall>c \<in> set s. is_digit c \<Longrightarrow> 0 \<le> decimal_value s"
proof (induction s rule: rev_induct)
  case Nil
  show ?case by (simp add: decimal_value_def)
next
  case (snoc c s)
  then have "0 \<le> decimal_value s" and "is_digit c" by simp_all
  then show ?case by (simp add: decimal_value_snoc digit_val_def is_digit_def)
qed

lemma digit_not_colon: "is_digit c \<Longrightarrow> c \<noteq> CHR '':''"
  by (auto simp: is_digit_def)

lemma digit_not_space: "is_digit c \<Longrightarrow> \<not> is_space c"
  by (auto simp: is_digit_def is_space_def)

lemma digit_not_sign: "is_digit c \<Longrightarrow> c \<noteq> CHR ''-'' \<and> c \<noteq> CHR ''+'' \<and> c \<noteq> CHR ''_''"
  by (auto simp: is_digit_def)

lemma dropWhile_space_digits:
  assumes "\<forall>c \<in> set ds. is_digit c"
  shows "dropWhile is_space ds = ds"
  using assms by (cases ds) (simp_all add: digit_not_space)

lemma strip_digits:
  assumes "\<forall>c \<in> set ds. is_digit c"
  shows "strip ds = ds"
proof -
  from assms have "\<forall>c \<in> set (rev ds). is_digit c" by simp
  then have "dropWhile is_space (rev ds) = rev ds" by (rule dropWhile_space_digits)
  with assms show ?thesis by (simp add: strip_def dropWhile_space_digits)
qed

lemma valid_digits_all:
  "ds \<noteq> [] \<Longrightarrow> \<forall>c \<in> set ds. is_digit c \<Longrightarrow> valid_digits ds"
  by (induction ds rule: valid_digits.induct) (auto dest: digit_not_sign)

lemma filter_underscore_digits:
  "\<forall>c \<in> set ds. is_digit c \<Longrightarrow> filter (\<lambda>x. x \<noteq> CHR ''_'') ds = ds"
  by (induction ds) (auto dest: digit_not_sign)

lemma py_int_digits:
  assumes "ds \<noteq> []" "\<forall>c \<in> set ds. is_digit c"
  shows "py_int ds = (if int_max_str_digits < length ds then Inl (digits_limit_error (length ds))
                      else Inr (decimal_value ds))"
proof -
  from assms obtain c r where ds: "ds = c # r" by (cases ds) auto
  with assms have c: "c \<noteq> CHR ''-''" "c \<noteq> CHR ''+''" using digit_not_sign by auto
  have v: "valid_digits (c # r)" using assms ds valid_digits_all by blast
  have f: "filter (\<lambda>x. x \<noteq> CHR ''_'') (c # r) = c # r"
    using assms ds filter_underscore_digits by blast
  have s: "strip (c # r) = c # r" using assms ds strip_digits by blast
  show ?thesis
    unfolding py_int_def ds s using c v f
    by (simp add: Let_def del: valid_digits.simps filter.simps)
qed

lemma py_int_digits_ok:
  assumes "ds \<noteq> []" "\<forall>c \<in> set ds. is_digit c" "length ds \<le> int_max_str_digits"
  shows "py_int ds = Inr (decimal_value ds)"
  using assms by (simp add: py_int_digits)

lemma str_nat_length_mono: "a \<le> b \<Longrightarrow> length (str_nat a) \<le> length (str_nat b)"
proof (induction b arbitrary: a rule: str_nat.induct)
  case (1 b)
  show ?case
  proof (cases "b < 10")
    case True
    with "1.prems" have "a < 10" by simp
    with True show ?thesis by (simp add: str_nat.simps [of a] str_nat.simps [of b])
  next
    case False
    show ?thesis
    proof (cases "a < 10")
      case True
      with False show ?thesis by (simp add: str_nat.simps [of a] str_nat.simps [of b])
    next
      case a: False
      from "1.prems" have "a div 10 \<le> b div 10" by (rule div_le_mono)
      with False have "length (str_nat (a div 10)) \<le> length (str_nat (b div 10))"
        by (intro "1.IH") simp_all
      with False a show ?thesis by (simp add: str_nat.simps [of a] str_nat.simps [of b])
    qed
  qed
qed

lemma re_match_here_nondigit: "\<not> is_digit c \<Longrightarrow> re_match_here (c # s) = None"
  by (simp add: re_match_here_def)

lemma re_search_skip: "\<forall>c \<in> set pre. \<not> is_digit c \<Longrightarrow> re_search (pre @ s) = re_search s"
  by (induction pre) (simp_all add: re_match_here_nondigit)

lemma re_match_here_groups:
  assumes "ds \<noteq> []" "\<forall>c \<in> set ds. is_digit c" "\<forall>c \<in> set es. is_digit c"
    and "post = [] \<or> \<not> is_digit (hd post)"
  shows "re_match_here (ds @ CHR ''-'' # es @ post) = Some (ds, es)"
proof -
  have dash: "\<not> is_digit CHR ''-''" by (simp add: is_digit_def)
  have t1: "takeWhile is_digit (ds @ CHR ''-'' # es @ post) = ds"
    using assms(2) dash by (simp add: takeWhile_append2)
  have d1: "dropWhile is_digit (ds @ CHR ''-'' # es @ post) = CHR ''-'' # es @ post"
    using assms(2) dash by (simp add: dropWhile_append2)
  have t2: "takeWhile is_digit (es @ post) = es"
    using assms(3,4) by (cases post) (simp_all add: takeWhile_append2)
  show ?thesis
    using assms(1) by (simp add: re_match_here_def t1 d1 t2)
qed

lemma re_search_groups:
  assumes "ds \<noteq> []" "\<forall>c \<in> set ds. is_digit c" "\<forall>c \<in> set es. is_digit c"
    and "post = [] \<or> \<not> is_digit (hd post)"
  shows "re_search (ds @ CHR ''-'' # es @ post) = Some (ds, es)"
proof -
  from assms(1) obtain d ds' where ds: "ds = d # ds'" by (cases ds) auto
  have "re_match_here (ds @ CHR ''-'' # es @ post) = Some (ds, es)"
    using assms by (rule re_match_here_groups)
  then show ?thesis by (simp add: ds)
qed

lemma re_match_here_Some:
  "re_match_here s = Some (g1, g2) \<Longrightarrow> g1 \<noteq> [] \<and> (\<forall>c \<in> set g1. is_digit c) \<and> (\<forall>c \<in> set g2. is_digit c)"
  by (auto simp: re_match_here_def Let_def split: if_splits list.splits dest: set_takeWhileD)

lemma re_search_Some:
  "re_search s = Some (g1, g2) \<Longrightarrow> g1 \<noteq> [] \<and> (\<forall>c \<in> set g1. is_digit c) \<and> (\<forall>c \<in> set g2. is_digit c)"
proof (induction s)
  case Nil
  then show ?case by (simp add: re_match_here_def)
next
  case (Cons c cs)
  then show ?case
    by (cases "re_match_here (c # cs)") (auto dest: re_match_here_Some)
qed

lemma re_match_here_digits:
  assumes "\<forall>c \<in> set s. is_digit c"
  shows "re_match_here s = None"
proof -
  from assms have d: "dropWhile is_digit s = []" by simp
  show ?thesis unfolding re_match_here_def Let_def d by simp
qed

lemma re_search_digits: "\<forall>c \<in> set s. is_digit c \<Longrightarrow> re_search s = None"
proof (induction s)
  case Nil
  show ?case by (simp add: re_match_here_def)
next
  case (Cons c cs)
  then have "re_match_here (c # cs) = None" by (intro re_match_here_digits)
  with Cons show ?case by simp
qed

lemma parse_first:
  assumes "1 \<le> file_size" "parse_range_header h file_size = Inr (s, e)"
  shows "0 \<le> s \<and> s \<le> e \<and> e \<le> file_size - 1"
  using assms
  by (auto simp: parse_range_header_def Let_def split: option.splits sum.splits if_splits)

lemma parse_no_match:
  assumes "re_search h = None"
  shows "parse_range_header h file_size = Inr (0, file_size - 1)"
  using assms by (simp add: parse_range_header_def)

lemma parse_matched:
  assumes "re_search h = Some (g1, g2)"
    and "length g1 \<le> int_max_str_digits" "length g2 \<le> int_max_str_digits"
  shows "parse_range_header h file_size =
           Inr (max 0 (min (decimal_value g1) (file_size - 1)),
                max (max 0 (min (decimal_value g1) (file_size - 1)))
                    (min (if g2 = [] then file_size - 1 else decimal_value g2) (file_size - 1)))"
proof -
  from assms(1) have g: "g1 \<noteq> []" "\<forall>c \<in> set g1. is_digit c" "\<forall>c \<in> set g2. is_digit c"
    using re_search_Some by blast+
  have s: "py_int g1 = Inr (decimal_value g1)"
    using g assms(2) by (intro py_int_digits_ok)
  have e: "g2 \<noteq> [] \<Longrightarrow> py_int g2 = Inr (decimal_value g2)"
    using g assms(3) by (intro py_int_digits_ok)
  show ?thesis
    using g(1) s e by (cases "g2 = []") (simp_all add: parse_range_header_def assms(1) Let_def)
qed

lemma parse_raises:
  assumes "re_search h = Some (g1, g2)" and "int_max_str_digits < length g1"
  shows "parse_range_header h file_size = Inl (digits_limit_error (length g1))"
proof -
  from assms(1) have g: "g1 \<noteq> []" "\<forall>c \<in> set g1. is_digit c"
    using re_search_Some by blast+
  then have "py_int g1 = Inl (digits_limit_error (length g1))"
    using assms(2) by (simp add: py_int_digits)
  with g(1) show ?thesis by (simp add: parse_range_header_def assms(1))
qed

lemma parse_unchanged:
  assumes "re_search h = Some (g1, g2)" "g2 \<noteq> []"
    and "length g1 \<le> int_max_str_digits" "length g2 \<le> int_max_str_digits"
    and "decimal_value g1 \<le> decimal_value g2" "decimal_value g2 < file_size"
  shows "parse_range_header h file_size = Inr (decimal_value g1, decimal_value g2)"
proof -
  from assms(1) have "0 \<le> decimal_value g1"
    using re_search_Some decimal_value_nonneg by blast
  with assms(2,5,6) show ?thesis
    by (simp add: parse_matched [OF assms(1,3,4)])
qed

lemma parse_concrete:
  assumes "a \<le> b" "int b < file_size" "length (str_nat b) \<le> int_max_str_digits"
    and "\<forall>c \<in> set pre. \<not> is_digit c" "post = [] \<or> \<not> is_digit (hd post)"
  shows "parse_range_header (pre @ str_nat a @ ''-'' @ str_nat b @ post) file_size = Inr (int a, int b)"
proof -
  have "re_search (pre @ str_nat a @ ''-'' @ str_nat b @ post)
          = re_search (str_nat a @ CHR ''-'' # str_nat b @ post)"
    using assms(4) by (simp add: re_search_skip)
  also have "\<dots> = Some (str_nat a, str_nat b)"
    using assms(5) by (intro re_search_groups str_nat_nonempty str_nat_digits)
  finally have m: "re_search (pre @ str_nat a @ ''-'' @ str_nat b @ post) = Some (str_nat a, str_nat b)" .
  from assms(1,3) have la: "length (str_nat a) \<le> int_max_str_digits"
    using str_nat_length_mono [of a b] by simp
  have "parse_range_header (pre @ str_nat a @ ''-'' @ str_nat b @ post) file_size
          = Inr (decimal_value (str_nat a), decimal_value (str_nat b))"
    using m la assms(1,2,3)
    by (intro parse_unchanged) (simp_all add: str_nat_nonempty decimal_value_str_nat)
  then show ?thesis by (simp add: decimal_value_str_nat)
qed

lemma re_match_here_lengths:
  assumes "re_match_here s = Some (g1, g2)"
  shows "length g1 \<le> length s \<and> length g2 \<le> length s"
proof -
  from assms obtain t where g1: "g1 = takeWhile is_digit s"
    and d: "dropWhile is_digit s = CHR ''-'' # t" and g2: "g2 = takeWhile is_digit t"
    by (auto simp: re_match_here_def Let_def split: if_splits list.splits)
  have "length (takeWhile is_digit s) + length (dropWhile is_digit s) = length s"
    by (metis length_append takeWhile_dropWhile_id)
  with d have "length t < length s" by simp
  moreover have "length g2 \<le> length t" unfolding g2 by (rule length_takeWhile_le)
  moreover have "length g1 \<le> length s" unfolding g1 by (rule length_takeWhile_le)
  ultimately show ?thesis by simp
qed

lemma re_search_lengths:
  "re_search s = Some (g1, g2) \<Longrightarrow> length g1 \<le> length s \<and> length g2 \<le> length s"
proof (induction s)
  case Nil
  then show ?case by (simp add: re_match_here_def)
next
  case (Cons c cs)
  show ?case
  proof (cases "re_match_here (c # cs)")
    case None
    with Cons show ?thesis by simp
  next
    case (Some m)
    with Cons.prems have "re_match_here (c # cs) = Some (g1, g2)" by simp
    then show ?thesis by (rule re_match_here_lengths)
  qed
qed

lemma parse_short_header:
  assumes "length h \<le> int_max_str_digits"
  shows "\<exists>s e. parse_range_header h file_size = Inr (s, e)"
proof (cases "re_search h")
  case None
  then show ?thesis by (simp add: parse_no_match)
next
  case (Some m)
  obtain g1 g2 where m: "m = (g1, g2)" by (cases m)
  with Some have r: "re_search h = Some (g1, g2)" by simp
  then have "length g1 \<le> int_max_str_digits" "length g2 \<le> int_max_str_digits"
    using re_search_lengths [OF r] assms by simp_all
  with r show ?thesis by (simp add: parse_matched)
qed

section \<open>Auxiliary facts: content delivery\<close>

lemma is_prefix_iff: "is_prefix p s \<longleftrightarrow> (\<exists>rest. s = p @ rest)"
  by (induction p s rule: is_prefix.induct) auto

lemma contains_iff: "contains sub s \<longleftrightarrow> (\<exists>pre post. s = pre @ sub @ post)"
proof (induction s)
  case Nil
  show ?case by auto
next
  case (Cons c cs)
  show ?case
  proof
    assume "contains sub (c # cs)"
    then consider "is_prefix sub (c # cs)" | "contains sub cs" by auto
    then show "\<exists>pre post. c # cs = pre @ sub @ post"
    proof cases
      case 1
      then obtain rest where "c # cs = sub @ rest" by (auto simp: is_prefix_iff)
      then have "c # cs = [] @ sub @ rest" by simp
      then show ?thesis by blast
    next
      case 2
      with Cons obtain pre post where "cs = pre @ sub @ post" by auto
      then have "c # cs = (c # pre) @ sub @ post" by simp
      then show ?thesis by blast
    qed
  next
    assume "\<exists>pre post. c # cs = pre @ sub @ post"
    then obtain pre post where eq: "c # cs = pre @ sub @ post" by blast
    show "contains sub (c # cs)"
    proof (cases pre)
      case Nil
      with eq have "is_prefix sub (c # cs)" by (auto simp: is_prefix_iff)
      then show ?thesis by simp
    next
      case (Cons p pre')
      with eq have "cs = pre' @ sub @ post" by simp
      with Cons.IH have "contains sub cs" by blast
      then show ?thesis by simp
    qed
  qed
qed

lemma headers_set_simps:
  "status (headers_set k v r) = status r"
  "body (headers_set k v r) = body r"
  "headers (headers_set k v r) k' = (if k' = k then Some v else headers r k')"
  by (simp_all add: headers_set_def)

lemma make_partial_response_valid:
  assumes "fs file_path = Some data" "0 \<le> start_pos" "start_pos \<le> end_pos" "end_pos < int (length data)"
  shows "spec_partial_content data start_pos end_pos
           (make_partial_response fs file_path start_pos end_pos (int (length data)))"
  using assms
  by (simp add: make_partial_response_def seek_read_def make_response_def headers_set_def
        spec_partial_content_def Let_def)

lemma make_entire_response_valid:
  assumes "fs file_path = Some data"
  shows "spec_full_content data (make_entire_response fs file_path (int (length data)))"
  using assms
  by (simp add: make_entire_response_def make_response_def spec_full_content_def headers_set_def)

lemma spec_partial_content_cors:
  "spec_partial_content data s e
     (headers_set ''Content-Type'' v1
       (headers_set ''Access-Control-Allow-Methods'' v2
         (headers_set ''Access-Control-Allow-Origin'' v3 r)))
   = spec_partial_content data s e r"
  by (simp add: spec_partial_content_def headers_set_simps)

lemma spec_full_content_cors:
  "spec_full_content data
     (headers_set ''Content-Type'' v1
       (headers_set ''Access-Control-Allow-Methods'' v2
         (headers_set ''Access-Control-Allow-Origin'' v3 r)))
   = spec_full_content data r"
  by (simp add: spec_full_content_def headers_set_simps)

lemma serve_audio_rejects:
  assumes "contains ''..'' filename \<or> startswith filename ''/''"
  shows "serve_audio cwd fs filename rh = (Inr (make_response ''Invalid filename'' 400), [Getcwd])"
  using assms by (simp add: serve_audio_def Let_def)

lemma serve_audio_range:
  assumes "\<not> contains ''..'' filename" "\<not> startswith filename ''/''"
    and "fs (os_path_join (os_path_join cwd ''audios'') filename) = Some data" and "h \<noteq> []"
    and "parse_range_header h (int (length data)) = Inr (s, e)"
  shows "fst (serve_audio cwd fs filename (Some h)) =
           Inr (headers_set ''Content-Type'' ''audio/mpeg''
                 (headers_set ''Access-Control-Allow-Methods'' ''GET''
                   (headers_set ''Access-Control-Allow-Origin'' ''*''
                     (make_partial_response fs (os_path_join (os_path_join cwd ''audios'') filename)
                        s e (int (length data))))))"
  using assms by (simp add: serve_audio_def Let_def)

lemma serve_audio_raises:
  assumes "\<not> contains ''..'' filename" "\<not> startswith filename ''/''"
    and "fs (os_path_join (os_path_join cwd ''audios'') filename) = Some data" and "h \<noteq> []"
    and "parse_range_header h (int (length data)) = Inl ex"
  shows "serve_audio cwd fs filename (Some h) =
           (Inl ex, [Getcwd, IsFile (os_path_join (os_path_join cwd ''audios'') filename),
                     GetSize (os_path_join (os_path_join cwd ''audios'') filename)])"
  using assms by (simp add: serve_audio_def Let_def)

lemma serve_audio_no_range:
  assumes "\<not> contains ''..'' filename" "\<not> startswith filename ''/''"
    and "fs (os_path_join (os_path_join cwd ''audios'') filename) = Some data"
    and "rh = None \<or> rh = Some []"
  shows "fst (serve_audio cwd fs filename rh) =
           Inr (headers_set ''Content-Type'' ''audio/mpeg''
                 (headers_set ''Access-Control-Allow-Methods'' ''GET''
                   (headers_set ''Access-Control-Allow-Origin'' ''*''
                     (make_entire_response fs (os_path_join (os_path_join cwd ''audios'') filename)
                        (int (length data))))))"
  using assms by (auto simp add: serve_audio_def Let_def)

section \<open>Auxiliary facts: fetch pipeline\<close>

lemma generate_gate_closed:
  assumes "extract_info_probe env video_url = Inr info" "\<not> duration_admitted (duration info)"
  shows "generate env host_url video_url = ([gate_payload], [Probe video_url])"
  using assms by (simp add: generate_def)

lemma generate_gate_open:
  assumes "extract_info_probe env video_url = Inr info" "duration_admitted (duration info)"
  shows "take 2 (snd (generate env host_url video_url)) = [Probe video_url, Download video_url]"
  using assms by (simp add: generate_def Let_def split: sum.splits)

lemma generate_one_chunk:
  "\<exists>p. fst (generate env host_url video_url) = [JObj p]
       \<and> (map_of p ''error'' \<noteq> None
           \<or> map fst p = [''img'', ''direct_link'', ''expiration_timestamp''])"
  by (simp add: generate_def Let_def error_payload_def gate_payload_def split: sum.splits)

lemma env_with_duration_probe:
  "extract_info_probe (env_with_duration d) u = Inr \<lparr>duration = d, thumbnail = Some ''http://img/t.jpg''\<rparr>"
  by (simp add: env_with_duration_def)

section \<open>Auxiliary facts: retention sweeper\<close>

lemma sweep_step:
  assumes "map_of d k = Some n"
  shows "sweep_loop now (k # rest) d lg =
    (if expired now n then
       (if deletable n
        then sweep_loop now rest (filter (\<lambda>kv. fst kv \<noteq> k) d) (lg @ [sweep_record (k, n)])
        else sweep_loop now rest d (lg @ [sweep_record (k, n)]))
     else sweep_loop now rest d lg)"
  using assms
  by (cases n)
     (auto simp: isfile_def getmtime_def os_remove_def expired_def deletable_def sweep_record_def Let_def)

lemma sweep_loop_spec:
  assumes "distinct (map fst d)" "set ds \<subseteq> set d" "distinct (map fst ds)"
  shows "sweep_loop now (map fst ds) d lg =
     (filter (\<lambda>kv. \<not> (kv \<in> set ds \<and> expired now (snd kv) \<and> deletable (snd kv))) d,
      lg @ map sweep_record (filter (\<lambda>kv. expired now (snd kv)) ds))"
  using assms
proof (induction ds arbitrary: d lg)
  case Nil
  then show ?case by simp
next
  case (Cons kn ds)
  obtain k n where kn: "kn = (k, n)" by (cases kn)
  from Cons.prems kn have mem: "(k, n) \<in> set d" by simp
  with Cons.prems(1) have look: "map_of d k = Some n" by simp
  from Cons.prems kn have sub: "set ds \<subseteq> set d" and dist: "distinct (map fst ds)"
    and fresh: "k \<notin> fst ` set ds" by auto
  have uniq: "\<And>kv. kv \<in> set d \<Longrightarrow> fst kv = k \<Longrightarrow> kv = (k, n)"
    using Cons.prems(1) mem by (metis eq_key_imp_eq_value prod.collapse)
  show ?case
  proof (cases "expired now n \<and> deletable n")
    case True
    let ?d' = "filter (\<lambda>kv. fst kv \<noteq> k) d"
    have d1: "distinct (map fst ?d')" using Cons.prems(1) by (simp add: distinct_map_filter)
    have s1: "set ds \<subseteq> set ?d'" using sub fresh by auto
    have "sweep_loop now (map fst (kn # ds)) d lg
            = sweep_loop now (map fst ds) ?d' (lg @ [sweep_record (k, n)])"
      using True look by (simp add: kn sweep_step del: sweep_loop.simps)
    also have "\<dots> = (filter (\<lambda>kv. \<not> (kv \<in> set ds \<and> expired now (snd kv) \<and> deletable (snd kv))) ?d',
      (lg @ [sweep_record (k, n)]) @ map sweep_record (filter (\<lambda>kv. expired now (snd kv)) ds))"
      using d1 s1 dist by (rule Cons.IH)
    also have "filter (\<lambda>kv. \<not> (kv \<in> set ds \<and> expired now (snd kv) \<and> deletable (snd kv))) ?d'
        = filter (\<lambda>kv. \<not> (kv \<in> set (kn # ds) \<and> expired now (snd kv) \<and> deletable (snd kv))) d"
      unfolding filter_filter
    proof (rule filter_cong [OF refl])
      fix kv assume "kv \<in> set d"
      moreover obtain a b where "kv = (a, b)" by (cases kv)
      ultimately show "(fst kv \<noteq> k \<and> \<not> (kv \<in> set ds \<and> expired now (snd kv) \<and> deletable (snd kv)))
        = (\<not> (kv \<in> set (kn # ds) \<and> expired now (snd kv) \<and> deletable (snd kv)))"
        using True uniq [of "(a, b)"] by (auto simp: kn)
    qed
    finally show ?thesis using True by (simp add: kn)
  next
    case False
    have "sweep_loop now (map fst (kn # ds)) d lg
            = sweep_loop now (map fst ds) d (lg @ (if expired now n then [sweep_record (k, n)] else []))"
      using False look by (simp add: kn sweep_step del: sweep_loop.simps)
    also have "\<dots> = (filter (\<lambda>kv. \<not> (kv \<in> set ds \<and> expired now (snd kv) \<and> deletable (snd kv))) d,
      (lg @ (if expired now n then [sweep_record (k, n)] else []))
        @ map sweep_record (filter (\<lambda>kv. expired now (snd kv)) ds))"
      using Cons.prems(1) sub dist by (rule Cons.IH)
    also have "filter (\<lambda>kv. \<not> (kv \<in> set ds \<and> expired now (snd kv) \<and> deletable (snd kv))) d
        = filter (\<lambda>kv. \<not> (kv \<in> set (kn # ds) \<and> expired now (snd kv) \<and> deletable (snd kv))) d"
    proof (rule filter_cong [OF refl])
      fix kv assume "kv \<in> set d"
      then show "(\<not> (kv \<in> set ds \<and> expired now (snd kv) \<and> deletable (snd kv)))
        = (\<not> (kv \<in> set (kn # ds) \<and> expired now (snd kv) \<and> deletable (snd kv)))"
        using False by (auto simp: kn)
    qed
    finally show ?thesis by (simp add: kn)
  qed
qed

lemma delete_expired_files_Dir:
  assumes "distinct (map fst d)"
  shows "delete_expired_files t (Dir d) =
     (Dir (filter (\<lambda>kv. \<not> (expired (py_trunc t) (snd kv) \<and> deletable (snd kv))) d),
      map sweep_record (filter (\<lambda>kv. expired (py_trunc t) (snd kv)) d))"
proof -
  have "sweep_loop (py_trunc t) (map fst d) d [] =
     (filter (\<lambda>kv. \<not> (kv \<in> set d \<and> expired (py_trunc t) (snd kv) \<and> deletable (snd kv))) d,
      [] @ map sweep_record (filter (\<lambda>kv. expired (py_trunc t) (snd kv)) d))"
    using assms by (intro sweep_loop_spec) simp_all
  moreover have "filter (\<lambda>kv. \<not> (kv \<in> set d \<and> expired (py_trunc t) (snd kv) \<and> deletable (snd kv))) d
      = filter (\<lambda>kv. \<not> (expired (py_trunc t) (snd kv) \<and> deletable (snd kv))) d"
    by (rule filter_cong) auto
  ultimately show ?thesis by (simp add: delete_expired_files_def Let_def)
qed

lemma entries_after_filter:
  assumes "distinct (map fst d)"
  shows "entries_after t d = filter (\<lambda>kv. \<not> (expired (py_trunc t) (snd kv) \<and> deletable (snd kv))) d"
  using assms by (simp add: entries_after_def delete_expired_files_Dir)

section \<open>Auxiliary facts: search\<close>

lemma search_loop_spec:
  assumes "\<forall>v \<in> set vs. v_duration v \<noteq> DurationNull"
  shows "search_loop vs acc = Inr (acc @ map search_entry (filter passes_filter vs))"
  using assms
proof (induction vs arbitrary: acc)
  case Nil
  show ?case by simp
next
  case (Cons v vs)
  then have ih: "\<And>acc. search_loop vs acc = Inr (acc @ map search_entry (filter passes_filter vs))"
    by simp
  have empty: "\<not> duration_short []" by (simp add: duration_short_def)
  have pv: "passes_filter v = (case v_duration v of DurationText d \<Rightarrow> duration_short d | _ \<Rightarrow> False)"
    by (simp add: passes_filter_def)
  from Cons.prems have "v_duration v \<noteq> DurationNull" by simp
  then show ?case
    by (cases "v_duration v") (simp_all add: ih pv empty)
qed

lemma split_on_no_sep: "sep \<notin> set a \<Longrightarrow> split_on sep a = [a]"
  by (induction a) auto

lemma split_on_append: "sep \<notin> set a \<Longrightarrow> split_on sep (a @ sep # b) = a # split_on sep b"
  by (induction a) auto

lemma split_on_nonempty: "split_on sep d \<noteq> []"
  by (induction d) (auto split: list.splits)

lemma split_on_single: "split_on sep d = [b] \<Longrightarrow> d = b \<and> sep \<notin> set b"
proof (induction d arbitrary: b)
  case Nil
  then show ?case by simp
next
  case (Cons x xs)
  show ?case
  proof (cases "x = sep")
    case True
    with Cons.prems show ?thesis by (simp add: split_on_nonempty)
  next
    case False
    obtain p ps where sp: "split_on sep xs = p # ps"
      using split_on_nonempty [of sep xs] by (cases "split_on sep xs") auto
    with Cons.prems False have "b = x # p" "ps = []" by simp_all
    with sp Cons.IH [of p] False show ?thesis by simp
  qed
qed

lemma split_on_two:
  "split_on sep d = [a, b] \<longleftrightarrow> d = a @ sep # b \<and> sep \<notin> set a \<and> sep \<notin> set b"
proof
  assume "d = a @ sep # b \<and> sep \<notin> set a \<and> sep \<notin> set b"
  then show "split_on sep d = [a, b]" by (simp add: split_on_append split_on_no_sep)
next
  assume "split_on sep d = [a, b]"
  then show "d = a @ sep # b \<and> sep \<notin> set a \<and> sep \<notin> set b"
  proof (induction d arbitrary: a)
    case Nil
    then show ?case by simp
  next
    case (Cons x xs)
    show ?case
    proof (cases "x = sep")
      case True
      with Cons.prems have "a = []" "split_on sep xs = [b]" by simp_all
      with True split_on_single [of sep xs b] show ?thesis by simp
    next
      case False
      obtain p ps where sp: "split_on sep xs = p # ps"
        using split_on_nonempty [of sep xs] by (cases "split_on sep xs") auto
      with Cons.prems False have "a = x # p" "ps = [b]" by simp_all
      with sp Cons.IH [of p] False show ?thesis by simp
    qed
  qed
qed

lemma duration_short_iff:
  "duration_short d \<longleftrightarrow>
     (\<exists>a b m s. d = a @ '':'' @ b \<and> CHR '':'' \<notin> set a \<and> CHR '':'' \<notin> set b
                \<and> py_int a = Inr m \<and> py_int b = Inr s \<and> 60 * m + s < 300)"
proof
  assume ds: "duration_short d"
  then have two: "length (split_on CHR '':'' d) = 2"
    by (auto simp: duration_short_def Let_def split: if_splits)
  then obtain a b where sp: "split_on CHR '':'' d = [a, b]"
    by (cases "split_on CHR '':'' d" rule: list.exhaust;
        cases "tl (split_on CHR '':'' d)" rule: list.exhaust) auto
  with ds obtain m s where "py_int a = Inr m" "py_int b = Inr s" "m * 60 + s < 300"
    by (auto simp: duration_short_def Let_def split: if_splits sum.splits)
  moreover from sp have "d = a @ '':'' @ b \<and> CHR '':'' \<notin> set a \<and> CHR '':'' \<notin> set b"
    by (simp add: split_on_two)
  ultimately show "\<exists>a b m s. d = a @ '':'' @ b \<and> CHR '':'' \<notin> set a \<and> CHR '':'' \<notin> set b
                \<and> py_int a = Inr m \<and> py_int b = Inr s \<and> 60 * m + s < 300"
    by (intro exI [of _ a] exI [of _ b] exI [of _ m] exI [of _ s]) simp
next
  assume "\<exists>a b m s. d = a @ '':'' @ b \<and> CHR '':'' \<notin> set a \<and> CHR '':'' \<notin> set b
                \<and> py_int a = Inr m \<and> py_int b = Inr s \<and> 60 * m + s < 300"
  then obtain a b m s where h: "d = a @ '':'' @ b" "CHR '':'' \<notin> set a" "CHR '':'' \<notin> set b"
    "py_int a = Inr m" "py_int b = Inr s" "60 * m + s < 300" by blast
  then have sp: "split_on CHR '':'' d = [a, b]" by (simp add: split_on_two)
  from h(1) have "CHR '':'' \<in> set d" by simp
  with sp h(4,5,6) show "duration_short d"
    by (simp add: duration_short_def Let_def)
qed

lemma duration_short_digits:
  assumes "ms \<noteq> []" "\<forall>c \<in> set ms. is_digit c" "length ms \<le> int_max_str_digits"
    and "ss \<noteq> []" "\<forall>c \<in> set ss. is_digit c" "length ss \<le> int_max_str_digits"
  shows "duration_short (ms @ '':'' @ ss) = (60 * decimal_value ms + decimal_value ss < 300)"
proof -
  have nm: "CHR '':'' \<notin> set ms" and ns: "CHR '':'' \<notin> set ss"
    using assms(2,5) digit_not_colon by blast+
  have sp: "split_on CHR '':'' (ms @ '':'' @ ss) = [ms, ss]"
    using nm ns by (simp add: split_on_two)
  have "py_int ms = Inr (decimal_value ms)" and "py_int ss = Inr (decimal_value ss)"
    using assms by (simp_all add: py_int_digits_ok)
  then show ?thesis
    unfolding duration_short_def sp by (simp add: Let_def) linarith
qed

section \<open>The claims of the specification\<close>

subsection \<open>C1: the range resolver\<close>

text \<open>
  Claim C1, as amended. For every file size of at least one byte and every Range header
  string: whenever \<open>parse_range_header\<close> returns, the interval satisfies
  \<open>0 \<le> start \<le> end \<le> size - 1\<close>; and it returns whenever the groups of the first match
  of the numeric pattern have at most 4300 digits each, so for every header of at most
  4300 characters. Without a match it is the full-file interval; with a match, the start
  is the first group clamped into \<open>[0, size - 1]\<close> and the end is the second group (or
  \<open>size - 1\<close> when that group is empty) clamped into \<open>[start, size - 1]\<close>. When the
  first match has both groups and they satisfy \<open>start \<le> end < size\<close>, the interval is
  returned unchanged; in particular a header made of digit-free text, the decimal
  numerals of \<open>a\<close> and \<open>b\<close> around a dash, and a rest that does not start with a digit
  resolves to \<open>(a, b)\<close> whenever \<open>a \<le> b < size\<close>.
\<close>

theorem parse_range_header_resolves:
  assumes "1 \<le> file_size"
  shows "(\<forall>s e. parse_range_header h file_size = Inr (s, e) \<longrightarrow> 0 \<le> s \<and> s \<le> e \<and> e \<le> file_size - 1)
       \<and> (re_search h = None \<longrightarrow> parse_range_header h file_size = Inr (0, file_size - 1))
       \<and> (\<forall>g1 g2. re_search h = Some (g1, g2)
                    \<and> length g1 \<le> int_max_str_digits \<and> length g2 \<le> int_max_str_digits \<longrightarrow>
             parse_range_header h file_size =
               Inr (max 0 (min (decimal_value g1) (file_size - 1)),
                    max (max 0 (min (decimal_value g1) (file_size - 1)))
                        (min (if g2 = [] then file_size - 1 else decimal_value g2) (file_size - 1))))
       \<and> (length h \<le> int_max_str_digits \<longrightarrow> (\<exists>s e. parse_range_header h file_size = Inr (s, e)))
       \<and> (\<forall>g1 g2. re_search h = Some (g1, g2) \<and> g2 \<noteq> []
                    \<and> length g1 \<le> int_max_str_digits \<and> length g2 \<le> int_max_str_digits
                    \<and> decimal_value g1 \<le> decimal_value g2 \<and> decimal_value g2 < file_size \<longrightarrow>
             parse_range_header h file_size = Inr (decimal_value g1, decimal_value g2))
       \<and> (\<forall>a b pre post. a \<le> b \<and> int b < file_size \<and> length (str_nat b) \<le> int_max_str_digits
                    \<and> (\<forall>c \<in> set pre. \<not> is_digit c) \<and> (post = [] \<or> \<not> is_digit (hd post)) \<longrightarrow>
             parse_range_header (pre @ str_nat a @ ''-'' @ str_nat b @ post) file_size
               = Inr (int a, int b))"
proof -
  have bounds: "\<forall>s e. parse_range_header h file_size = Inr (s, e) \<longrightarrow>
                  0 \<le> s \<and> s \<le> e \<and> e \<le> file_size - 1"
    using assms parse_first by blast
  have none: "re_search h = None \<longrightarrow> parse_range_header h file_size = Inr (0, file_size - 1)"
    by (simp add: parse_no_match)
  have clamp: "\<forall>g1 g2. re_search h = Some (g1, g2)
                    \<and> length g1 \<le> int_max_str_digits \<and> length g2 \<le> int_max_str_digits \<longrightarrow>
             parse_range_header h file_size =
               Inr (max 0 (min (decimal_value g1) (file_size - 1)),
                    max (max 0 (min (decimal_value g1) (file_size - 1)))
                        (min (if g2 = [] then file_size - 1 else decimal_value g2) (file_size - 1)))"
    using parse_matched by blast
  have short: "length h \<le> int_max_str_digits \<longrightarrow> (\<exists>s e. parse_range_header h file_size = Inr (s, e))"
    using parse_short_header by blast
  have unchanged: "\<forall>g1 g2. re_search h = Some (g1, g2) \<and> g2 \<noteq> []
                    \<and> length g1 \<le> int_max_str_digits \<and> length g2 \<le> int_max_str_digits
                    \<and> decimal_value g1 \<le> decimal_value g2 \<and> decimal_value g2 < file_size \<longrightarrow>
             parse_range_header h file_size = Inr (decimal_value g1, decimal_value g2)"
    using parse_unchanged by blast
  have shaped: "\<forall>a b pre post. a \<le> b \<and> int b < file_size \<and> length (str_nat b) \<le> int_max_str_digits
                    \<and> (\<forall>c \<in> set pre. \<not> is_digit c) \<and> (post = [] \<or> \<not> is_digit (hd post)) \<longrightarrow>
             parse_range_header (pre @ str_nat a @ ''-'' @ str_nat b @ post) file_size
               = Inr (int a, int b)"
    using parse_concrete by blast
  from bounds none clamp short unchanged shaped show ?thesis by blast
qed

text \<open>The theorem at the out-of-range header \<open>bytes=500-600\<close> against a file of 100 bytes.\<close>

theorem parse_range_header_resolves_witness:
  "(1::int) \<le> 100
   \<and> length ''bytes=500-600'' \<le> int_max_str_digits
   \<and> parse_range_header ''bytes=500-600'' 100 = Inr (99, 99)"
proof -
  have l: "length ''bytes=500-600'' \<le> int_max_str_digits" by (simp add: int_max_str_digits_def)
  have v: "parse_range_header ''bytes=500-600'' 100 = Inr (99, 99)" by code_simp
  from parse_range_header_resolves [of 100 "''bytes=500-600''"] l v show ?thesis by simp
qed

text \<open>
  The claim as written fails in two ways. For an empty file, \<open>bytes=0-0\<close> against the
  size 0 resolves to \<open>(0, 0)\<close>, whose end exceeds \<open>size - 1 = -1\<close>. And the resolver
  can fail: on a start of 4301 digits \<open>int\<close> raises a \<open>ValueError\<close>, which nothing
  in the resolver or the handler catches.
\<close>

theorem parse_range_header_counterexample:
  "parse_range_header ''bytes=0-0'' 0 = Inr (0, 0)
   \<and> \<not> (0 :: int) \<le> 0 - 1
   \<and> parse_range_header (''bytes='' @ replicate 4301 CHR ''1'' @ ''-'') 100
       = Inl (digits_limit_error 4301)"
proof -
  have a: "parse_range_header ''bytes=0-0'' 0 = Inr (0, 0)" by code_simp
  have d: "\<forall>c \<in> set (replicate 4301 CHR ''1''). is_digit c" by (simp add: is_digit_def)
  have n: "replicate 4301 CHR ''1'' \<noteq> []" by simp
  have p: "\<forall>c \<in> set ''bytes=''. \<not> is_digit c" by (simp add: is_digit_def)
  have "re_search (''bytes='' @ replicate 4301 CHR ''1'' @ ''-'')
          = re_search (replicate 4301 CHR ''1'' @ CHR ''-'' # [] @ [])"
    using re_search_skip [OF p, of "replicate 4301 CHR ''1'' @ ''-''"] by simp
  also have "\<dots> = Some (replicate 4301 CHR ''1'', [])"
    using n d by (intro re_search_groups) simp_all
  finally have m: "re_search (''bytes='' @ replicate 4301 CHR ''1'' @ ''-'')
          = Some (replicate 4301 CHR ''1'', [])" .
  have "parse_range_header (''bytes='' @ replicate 4301 CHR ''1'' @ ''-'') 100
          = Inl (digits_limit_error (length (replicate 4301 CHR ''1'')))"
    using m by (rule parse_raises) (simp add: int_max_str_digits_def)
  with a show ?thesis by simp
qed

subsection \<open>C2: the duration gate\<close>

text \<open>
  Claim C2, as amended. Whenever the probe returns: if the probed duration is unknown,
  zero, or strictly greater than 300 seconds, \<open>generate\<close> yields the structured error
  payload and its only external call is the probe (no download, no conversion, so no
  file is written); for every other known duration of at most 300 seconds, 300 included,
  the download of the full fetch follows the probe.
\<close>

theorem generate_duration_gate:
  assumes "extract_info_probe env video_url = Inr info"
  shows "(duration info = None \<or> duration info = Some 0 \<or> (\<exists>x. duration info = Some x \<and> 300 < x) \<longrightarrow>
            generate env host_url video_url
              = ([JObj [(''error'', JStr ''Video duration must be less than or equal to 5 minutes.'')]],
                 [Probe video_url]))
       \<and> (\<forall>x. duration info = Some x \<and> x \<noteq> 0 \<and> x \<le> 300 \<longrightarrow>
             take 2 (snd (generate env host_url video_url)) = [Probe video_url, Download video_url])"
proof (intro conjI allI impI)
  assume "duration info = None \<or> duration info = Some 0 \<or> (\<exists>x. duration info = Some x \<and> 300 < x)"
  then have "\<not> duration_admitted (duration info)"
    by (auto simp: duration_admitted_def)
  with assms have "generate env host_url video_url = ([gate_payload], [Probe video_url])"
    by (rule generate_gate_closed)
  then show "generate env host_url video_url
              = ([JObj [(''error'', JStr ''Video duration must be less than or equal to 5 minutes.'')]],
                 [Probe video_url])"
    by (simp add: gate_payload_def)
next
  fix x
  assume "duration info = Some x \<and> x \<noteq> 0 \<and> x \<le> 300"
  then have "duration_admitted (duration info)" by (simp add: duration_admitted_def)
  with assms show "take 2 (snd (generate env host_url video_url)) = [Probe video_url, Download video_url]"
    by (rule generate_gate_open)
qed

text \<open>The theorem at the probed durations 301 and 300.\<close>

theorem generate_duration_gate_witness:
  "generate (env_with_duration (Some 301)) ''http://host/download/'' ''v''
     = ([JObj [(''error'', JStr ''Video duration must be less than or equal to 5 minutes.'')]], [Probe ''v''])
   \<and> take 2 (snd (generate (env_with_duration (Some 300)) ''http://host/download/'' ''v''))
       = [Probe ''v'', Download ''v'']"
  using generate_duration_gate [OF env_with_duration_probe, of "Some 301" "''http://host/download/''" "''v''"]
    generate_duration_gate [OF env_with_duration_probe, of "Some 300" "''http://host/download/''" "''v''"]
  by simp

text \<open>
  A probed duration of zero is a known duration of at most 300 seconds, yet the pipeline
  stops at the gate: \<open>duration and duration <= 300\<close> is falsy for it.
\<close>

theorem generate_zero_duration_counterexample:
  "duration \<lparr>duration = Some 0, thumbnail = Some ''http://img/t.jpg''\<rparr> = Some 0
   \<and> (0 :: rat) \<le> 300
   \<and> extract_info_probe (env_with_duration (Some 0)) ''v''
       = Inr \<lparr>duration = Some 0, thumbnail = Some ''http://img/t.jpg''\<rparr>
   \<and> generate (env_with_duration (Some 0)) ''http://host/download/'' ''v''
       = ([JObj [(''error'', JStr ''Video duration must be less than or equal to 5 minutes.'')]], [Probe ''v''])"
  by (simp add: generate_def env_with_duration_def duration_admitted_def gate_payload_def)

subsection \<open>C3: partial content\<close>

text \<open>
  Claim C3, as amended. For every existing file that is not empty: for every byte range
  with \<open>0 \<le> start \<le> end \<le> size - 1\<close>, \<open>make_partial_response\<close> returns status 206,
  \<open>Content-Range: bytes start-end/size\<close>, \<open>Content-Length = end - start + 1\<close> and
  as body exactly the \<open>end - start + 1\<close> bytes of the file from offset \<open>start\<close>
  through offset \<open>end\<close>; and for every non-empty Range header that
  \<open>parse_range_header\<close> resolves to a range \<open>(start, end)\<close>, \<open>serve_audio\<close> returns
  that response for this range.
\<close>

theorem partial_content_served:
  assumes "fs file_path = Some data" and "data \<noteq> []"
  shows "(\<forall>start_pos end_pos.
            0 \<le> start_pos \<and> start_pos \<le> end_pos \<and> end_pos < int (length data) \<longrightarrow>
            spec_partial_content data start_pos end_pos
              (make_partial_response fs file_path start_pos end_pos (int (length data))))
       \<and> (\<forall>cwd filename (h :: string) start_pos end_pos.
             h \<noteq> [] \<and> \<not> contains ''..'' filename \<and> \<not> startswith filename ''/''
             \<and> os_path_join (os_path_join cwd ''audios'') filename = file_path
             \<and> parse_range_header h (int (length data)) = Inr (start_pos, end_pos) \<longrightarrow>
             (\<exists>r. fst (serve_audio cwd fs filename (Some h)) = Inr r
                  \<and> spec_partial_content data start_pos end_pos r))"
proof (intro conjI allI impI)
  fix start_pos end_pos
  assume "0 \<le> start_pos \<and> start_pos \<le> end_pos \<and> end_pos < int (length data)"
  with assms(1) show "spec_partial_content data start_pos end_pos
              (make_partial_response fs file_path start_pos end_pos (int (length data)))"
    by (intro make_partial_response_valid) simp_all
next
  fix cwd filename and h :: string and start_pos end_pos
  assume h: "h \<noteq> [] \<and> \<not> contains ''..'' filename \<and> \<not> startswith filename ''/''
             \<and> os_path_join (os_path_join cwd ''audios'') filename = file_path
             \<and> parse_range_header h (int (length data)) = Inr (start_pos, end_pos)"
  let ?p = "os_path_join (os_path_join cwd ''audios'') filename"
  from h assms(1) have f: "fs ?p = Some data" by simp
  from assms(2) have "1 \<le> int (length data)" by (cases data) simp_all
  with h have b: "0 \<le> start_pos \<and> start_pos \<le> end_pos \<and> end_pos \<le> int (length data) - 1"
    by (intro parse_first [of _ h]) simp_all
  have "spec_partial_content data start_pos end_pos
          (make_partial_response fs ?p start_pos end_pos (int (length data)))"
    using f b by (intro make_partial_response_valid) simp_all
  moreover have "fst (serve_audio cwd fs filename (Some h)) =
           Inr (headers_set ''Content-Type'' ''audio/mpeg''
                 (headers_set ''Access-Control-Allow-Methods'' ''GET''
                   (headers_set ''Access-Control-Allow-Origin'' ''*''
                     (make_partial_response fs ?p start_pos end_pos (int (length data))))))"
    using h f by (intro serve_audio_range) simp_all
  ultimately show "\<exists>r. fst (serve_audio cwd fs filename (Some h)) = Inr r
                  \<and> spec_partial_content data start_pos end_pos r"
    by (simp add: spec_partial_content_cors)
qed

text \<open>The theorem at the bytes 1 to 3 of a file of five bytes.\<close>

theorem partial_content_served_witness:
  "spec_partial_content ''hello'' 1 3
     (make_partial_response [''/srv/audios/a.mp3'' \<mapsto> ''hello''] ''/srv/audios/a.mp3'' 1 3 5)
   \<and> body (make_partial_response [''/srv/audios/a.mp3'' \<mapsto> ''hello''] ''/srv/audios/a.mp3'' 1 3 5)
       = ''ell''"
proof -
  have f: "[''/srv/audios/a.mp3'' \<mapsto> ''hello''] ''/srv/audios/a.mp3'' = Some ''hello''" by simp
  have n: "''hello'' \<noteq> []" by simp
  from partial_content_served
         [of "[''/srv/audios/a.mp3'' \<mapsto> ''hello'']" "''/srv/audios/a.mp3''" "''hello''"] f n
  have "spec_partial_content ''hello'' 1 3
     (make_partial_response [''/srv/audios/a.mp3'' \<mapsto> ''hello''] ''/srv/audios/a.mp3'' 1 3 5)"
    by simp
  then show ?thesis by (simp add: spec_partial_content_def)
qed

text \<open>
  For an empty file the claim as written fails: the header \<open>bytes=0-0\<close> resolves to
  \<open>(0, 0)\<close>, and the response has status 206 and \<open>Content-Length: 1\<close> with an empty
  body.
\<close>

theorem partial_content_empty_file_counterexample:
  "parse_range_header ''bytes=0-0'' (int (length ([] :: bytes))) = Inr (0, 0)
   \<and> map_sum id status
        (fst (serve_audio ''/srv'' [''/srv/audios/a.mp3'' \<mapsto> []] ''a.mp3'' (Some ''bytes=0-0''))) = Inr 206
   \<and> map_sum id (headers_get ''Content-Length'')
        (fst (serve_audio ''/srv'' [''/srv/audios/a.mp3'' \<mapsto> []] ''a.mp3'' (Some ''bytes=0-0'')))
       = Inr (Some ''1'')
   \<and> map_sum id body
        (fst (serve_audio ''/srv'' [''/srv/audios/a.mp3'' \<mapsto> []] ''a.mp3'' (Some ''bytes=0-0''))) = Inr []
   \<and> map_sum id (spec_partial_content [] 0 0)
        (fst (serve_audio ''/srv'' [''/srv/audios/a.mp3'' \<mapsto> []] ''a.mp3'' (Some ''bytes=0-0'')))
       = Inr False"
  by code_simp

subsection \<open>C4: full content\<close>

text \<open>
  Claim C4. For every existing file, \<open>make_entire_response\<close> called with the file's
  size returns status 200, \<open>Content-Length\<close> equal to that size and the whole contents
  as body; and so does \<open>serve_audio\<close> for every request for that file that has no
  Range header (or an empty one).
\<close>

theorem serve_audio_entire_file:
  assumes "fs file_path = Some data"
  shows "spec_full_content data (make_entire_response fs file_path (int (length data)))
       \<and> (\<forall>cwd filename (rh :: string option).
             (rh = None \<or> rh = Some []) \<and> \<not> contains ''..'' filename \<and> \<not> startswith filename ''/''
             \<and> os_path_join (os_path_join cwd ''audios'') filename = file_path \<longrightarrow>
             (\<exists>r. fst (serve_audio cwd fs filename rh) = Inr r \<and> spec_full_content data r))"
proof (intro conjI allI impI)
  show "spec_full_content data (make_entire_response fs file_path (int (length data)))"
    using assms by (rule make_entire_response_valid)
next
  fix cwd filename and rh :: "string option"
  assume h: "(rh = None \<or> rh = Some []) \<and> \<not> contains ''..'' filename \<and> \<not> startswith filename ''/''
             \<and> os_path_join (os_path_join cwd ''audios'') filename = file_path"
  with assms have f: "fs (os_path_join (os_path_join cwd ''audios'') filename) = Some data" by simp
  from h have "fst (serve_audio cwd fs filename rh) =
           Inr (headers_set ''Content-Type'' ''audio/mpeg''
                 (headers_set ''Access-Control-Allow-Methods'' ''GET''
                   (headers_set ''Access-Control-Allow-Origin'' ''*''
                     (make_entire_response fs (os_path_join (os_path_join cwd ''audios'') filename)
                        (int (length data))))))"
    using f by (intro serve_audio_no_range) simp_all
  then show "\<exists>r. fst (serve_audio cwd fs filename rh) = Inr r \<and> spec_full_content data r"
    using make_entire_response_valid [of fs "os_path_join (os_path_join cwd ''audios'') filename" data] f
    by (simp add: spec_full_content_cors)
qed

text \<open>The theorem at a file of five bytes.\<close>

theorem serve_audio_entire_file_witness:
  "spec_full_content ''hello''
     (make_entire_response [''/srv/audios/a.mp3'' \<mapsto> ''hello''] ''/srv/audios/a.mp3'' 5)
   \<and> map_sum id (spec_full_content ''hello'')
       (fst (serve_audio ''/srv'' [''/srv/audios/a.mp3'' \<mapsto> ''hello''] ''a.mp3'' None)) = Inr True
   \<and> map_sum id body
       (fst (serve_audio ''/srv'' [''/srv/audios/a.mp3'' \<mapsto> ''hello''] ''a.mp3'' None)) = Inr ''hello''"
proof -
  have f: "[''/srv/audios/a.mp3'' \<mapsto> ''hello''] ''/srv/audios/a.mp3'' = Some ''hello''" by simp
  have p: "os_path_join (os_path_join ''/srv'' ''audios'') ''a.mp3'' = ''/srv/audios/a.mp3''"
    by (simp add: os_path_join_def)
  have s: "\<not> contains ''..'' ''a.mp3''" "\<not> startswith ''a.mp3'' ''/''"
    by (simp_all add: startswith_def)
  note t = serve_audio_entire_file
             [of "[''/srv/audios/a.mp3'' \<mapsto> ''hello'']" "''/srv/audios/a.mp3''" "''hello''"]
  from t f have a: "spec_full_content ''hello''
     (make_entire_response [''/srv/audios/a.mp3'' \<mapsto> ''hello''] ''/srv/audios/a.mp3'' 5)"
    by simp
  from t f p s obtain r
    where r: "fst (serve_audio ''/srv'' [''/srv/audios/a.mp3'' \<mapsto> ''hello''] ''a.mp3'' None) = Inr r"
      and c: "spec_full_content ''hello'' r"
    by (metis (no_types, lifting))
  from c have "body r = ''hello''" by (simp add: spec_full_content_def)
  with a r c show ?thesis by simp
qed

subsection \<open>C5: unsafe file names\<close>

text \<open>
  Claim C5. For every requested file name that contains the sequence \<open>..\<close> or begins
  with \<open>/\<close>, \<open>serve_audio\<close> answers with status 400, and the only operation it
  performed before is reading the working directory: no existence check, no size query
  and no open of the requested path. Its result is the same whatever the filesystem holds.
\<close>

theorem serve_audio_rejects_traversal:
  assumes "(\<exists>pre post. filename = pre @ ''..'' @ post) \<or> (\<exists>rest. filename = CHR ''/'' # rest)"
  shows "(\<exists>r. fst (serve_audio cwd fs filename rh) = Inr r \<and> status r = 400)
       \<and> snd (serve_audio cwd fs filename rh) = [Getcwd]
       \<and> serve_audio cwd fs' filename rh = serve_audio cwd fs filename rh"
proof -
  from assms have "contains ''..'' filename \<or> startswith filename ''/''"
    by (auto simp: contains_iff startswith_def is_prefix_iff)
  then have "serve_audio cwd fs filename rh = (Inr (make_response ''Invalid filename'' 400), [Getcwd])"
    and "serve_audio cwd fs' filename rh = (Inr (make_response ''Invalid filename'' 400), [Getcwd])"
    by (rule serve_audio_rejects)+
  then show ?thesis by (simp add: make_response_def)
qed

text \<open>The theorem at the file names \<open>../../etc/passwd\<close> and \<open>/abs\<close>.\<close>

theorem serve_audio_rejects_traversal_witness:
  "map_sum id status
     (fst (serve_audio ''/srv'' [''/etc/passwd'' \<mapsto> ''root''] ''../../etc/passwd'' None)) = Inr 400
   \<and> snd (serve_audio ''/srv'' [''/etc/passwd'' \<mapsto> ''root''] ''../../etc/passwd'' None) = [Getcwd]
   \<and> map_sum id status (fst (serve_audio ''/srv'' [''/abs'' \<mapsto> ''x''] ''/abs'' None)) = Inr 400
   \<and> snd (serve_audio ''/srv'' [''/abs'' \<mapsto> ''x''] ''/abs'' None) = [Getcwd]"
proof -
  have "''../../etc/passwd'' = [] @ ''..'' @ ''/../etc/passwd''" by simp
  then have a: "(\<exists>pre post. ''../../etc/passwd'' = pre @ ''..'' @ post)
                 \<or> (\<exists>rest. ''../../etc/passwd'' = CHR ''/'' # rest)" by blast
  have b: "(\<exists>pre post. ''/abs'' = pre @ ''..'' @ post) \<or> (\<exists>rest. ''/abs'' = CHR ''/'' # rest)"
    by simp
  from serve_audio_rejects_traversal
         [OF a, of "''/srv''" "[''/etc/passwd'' \<mapsto> ''root'']" None "[''/etc/passwd'' \<mapsto> ''root'']"]
  have 1: "map_sum id status
     (fst (serve_audio ''/srv'' [''/etc/passwd'' \<mapsto> ''root''] ''../../etc/passwd'' None)) = Inr 400
   \<and> snd (serve_audio ''/srv'' [''/etc/passwd'' \<mapsto> ''root''] ''../../etc/passwd'' None) = [Getcwd]"
    by auto
  from serve_audio_rejects_traversal
         [OF b, of "''/srv''" "[''/abs'' \<mapsto> ''x'']" None "[''/abs'' \<mapsto> ''x'']"]
  have 2: "map_sum id status (fst (serve_audio ''/srv'' [''/abs'' \<mapsto> ''x''] ''/abs'' None)) = Inr 400
   \<and> snd (serve_audio ''/srv'' [''/abs'' \<mapsto> ''x''] ''/abs'' None) = [Getcwd]"
    by auto
  from 1 2 show ?thesis by simp
qed

subsection \<open>C6: retention\<close>

text \<open>
  Claim C6, as amended. For every cache directory (its entries named apart), after one
  pass of \<open>delete_expired_files\<close> with the timestamp \<open>now = int(time.time())\<close>: the
  directory holds, in their order, exactly the entries that are not expired regular
  files whose deletion succeeds. So every regular file with
  \<open>now - mtime > RETENTION_PERIOD\<close> whose deletion does not fail is gone, and every
  entry whose age does not exceed \<open>RETENTION_PERIOD\<close> (and every subdirectory) is
  untouched. When the cache directory is absent the pass does nothing and logs nothing.
\<close>

theorem sweep_retention:
  assumes "distinct (map fst d)"
  shows "entries_after t d
           = filter (\<lambda>kv. \<not> (expired (py_trunc t) (snd kv) \<and> deletable (snd kv))) d
       \<and> (\<forall>k m. (k, RegFile m True) \<in> set d
                 \<and> of_int RETENTION_PERIOD < of_int (py_trunc t) - m \<longrightarrow>
               k \<notin> fst ` set (entries_after t d))
       \<and> (\<forall>k n. (k, n) \<in> set d \<and> \<not> expired (py_trunc t) n \<longrightarrow> (k, n) \<in> set (entries_after t d))
       \<and> delete_expired_files t Absent = (Absent, [])"
proof (intro conjI allI impI)
  show e: "entries_after t d
           = filter (\<lambda>kv. \<not> (expired (py_trunc t) (snd kv) \<and> deletable (snd kv))) d"
    using assms by (rule entries_after_filter)
  show "delete_expired_files t Absent = (Absent, [])"
    by (simp add: delete_expired_files_def)
  {
    fix k m
    assume h: "(k, RegFile m True) \<in> set d \<and> of_int RETENTION_PERIOD < of_int (py_trunc t) - m"
    show "k \<notin> fst ` set (entries_after t d)"
    proof
      assume "k \<in> fst ` set (entries_after t d)"
      then obtain n where n: "(k, n) \<in> set d"
        and keep: "\<not> (expired (py_trunc t) n \<and> deletable n)"
        unfolding e by auto
      from assms n h have "n = RegFile m True" by (meson eq_key_imp_eq_value)
      with keep h show False by (simp add: expired_def deletable_def)
    qed
  }
  {
    fix k n
    assume "(k, n) \<in> set d \<and> \<not> expired (py_trunc t) n"
    then show "(k, n) \<in> set (entries_after t d)" unfolding e by simp
  }
qed

text \<open>The theorem at the example directory, swept at time 10000.5.\<close>

theorem sweep_retention_witness:
  "distinct (map fst example_dir)
   \<and> entries_after (20001 / 2) example_dir
       = [(''c.mp3'', RegFile 5 False), (''d'', Directory), (''f.mp3'', RegFile 9000 True)]"
proof -
  have d: "distinct (map fst example_dir)" by (simp add: example_dir_def)
  from sweep_retention [OF d, of "20001 / 2"] d show ?thesis
    by (simp add: example_dir_def expired_def deletable_def py_trunc_def RETENTION_PERIOD_def)
qed

text \<open>
  An expired regular file whose deletion fails is still in the directory after the pass,
  so not every expired file has been deleted.
\<close>

theorem sweep_undeletable_counterexample:
  "py_trunc 10000 = 10000
   \<and> (of_int RETENTION_PERIOD :: rat) < of_int 10000 - 5
   \<and> fst (delete_expired_files 10000 (Dir [(''c.mp3'', RegFile 5 False)]))
       = Dir [(''c.mp3'', RegFile 5 False)]"
  by (simp add: delete_expired_files_def py_trunc_def RETENTION_PERIOD_def isfile_def getmtime_def
        os_remove_def Let_def)

subsection \<open>C7: deletion failures\<close>

text \<open>
  Claim C7. For every cache directory (its entries named apart), one pass of
  \<open>delete_expired_files\<close> writes one log record for each expired regular file, in
  listing order, whether or not deletions before it failed: a file whose deletion
  succeeds is logged as deleted and is gone, a file whose deletion fails is logged as an
  error and stays. The pass always returns to its caller: the failure of
  \<open>os.remove\<close> is consumed inside the loop, and a cache path that is not a directory
  is logged by the outer handler.
\<close>

theorem sweep_attends_every_expired_file:
  assumes "distinct (map fst d)"
  shows "snd (delete_expired_files t (Dir d))
           = map sweep_record (filter (\<lambda>kv. expired (py_trunc t) (snd kv)) d)
       \<and> (\<forall>k m. (k, RegFile m True) \<in> set d \<and> expired (py_trunc t) (RegFile m True) \<longrightarrow>
             LogInfo (''Deleted expired file: '' @ os_path_join ''audios'' k)
               \<in> set (snd (delete_expired_files t (Dir d)))
             \<and> k \<notin> fst ` set (entries_after t d))
       \<and> (\<forall>k m. (k, RegFile m False) \<in> set d \<and> expired (py_trunc t) (RegFile m False) \<longrightarrow>
             LogError (''Error deleting file '' @ os_path_join ''audios'' k
                         @ '': [Errno 13] Permission denied: '' @ os_path_join ''audios'' k)
               \<in> set (snd (delete_expired_files t (Dir d)))
             \<and> (k, RegFile m False) \<in> set (entries_after t d))
       \<and> delete_expired_files t NotADirectory
           = (NotADirectory,
              [LogError ''Error in delete_expired_files: [Errno 20] Not a directory: audios''])"
proof (intro conjI allI impI)
  show lg: "snd (delete_expired_files t (Dir d))
           = map sweep_record (filter (\<lambda>kv. expired (py_trunc t) (snd kv)) d)"
    using assms by (simp add: delete_expired_files_Dir)
  have e: "entries_after t d
           = filter (\<lambda>kv. \<not> (expired (py_trunc t) (snd kv) \<and> deletable (snd kv))) d"
    using assms by (rule entries_after_filter)
  show "delete_expired_files t NotADirectory
           = (NotADirectory,
              [LogError ''Error in delete_expired_files: [Errno 20] Not a directory: audios''])"
    by (simp add: delete_expired_files_def)
  {
    fix k m
    assume h: "(k, RegFile m True) \<in> set d \<and> expired (py_trunc t) (RegFile m True)"
    then have "sweep_record (k, RegFile m True) \<in> set (snd (delete_expired_files t (Dir d)))"
      unfolding lg by force
    then show "LogInfo (''Deleted expired file: '' @ os_path_join ''audios'' k)
               \<in> set (snd (delete_expired_files t (Dir d)))"
      by (simp add: sweep_record_def deletable_def)
    show "k \<notin> fst ` set (entries_after t d)"
    proof
      assume "k \<in> fst ` set (entries_after t d)"
      then obtain n where n: "(k, n) \<in> set d"
        and keep: "\<not> (expired (py_trunc t) n \<and> deletable n)"
        unfolding e by auto
      from assms n h have "n = RegFile m True" by (meson eq_key_imp_eq_value)
      with keep h show False by (simp add: deletable_def)
    qed
  }
  {
    fix k m
    assume h: "(k, RegFile m False) \<in> set d \<and> expired (py_trunc t) (RegFile m False)"
    then have "sweep_record (k, RegFile m False) \<in> set (snd (delete_expired_files t (Dir d)))"
      unfolding lg by force
    then show "LogError (''Error deleting file '' @ os_path_join ''audios'' k
                         @ '': [Errno 13] Permission denied: '' @ os_path_join ''audios'' k)
               \<in> set (snd (delete_expired_files t (Dir d)))"
      by (simp add: sweep_record_def deletable_def)
    from h show "(k, RegFile m False) \<in> set (entries_after t d)"
      unfolding e by (simp add: deletable_def)
  }
qed

text \<open>
  The theorem at the example directory: the failed deletion of \<open>c.mp3\<close> is logged and
  \<open>e.mp3\<close>, listed after it, is still deleted.
\<close>

theorem sweep_attends_every_expired_file_witness:
  "distinct (map fst example_dir)
   \<and> snd (delete_expired_files (20001 / 2) (Dir example_dir))
       = [LogInfo ''Deleted expired file: audios/a.mp3'',
          LogError ''Error deleting file audios/c.mp3: [Errno 13] Permission denied: audios/c.mp3'',
          LogInfo ''Deleted expired file: audios/e.mp3'']"
proof -
  have d: "distinct (map fst example_dir)" by (simp add: example_dir_def)
  from sweep_attends_every_expired_file [OF d, of "20001 / 2"] d show ?thesis
    by (simp add: example_dir_def expired_def deletable_def py_trunc_def RETENTION_PERIOD_def
          sweep_record_def os_path_join_def)
qed

subsection \<open>C8: exceptions of the pipeline\<close>

text \<open>
  Claim C8. For every reference, \<open>generate\<close> yields exactly one payload, a JSON object
  that either has an \<open>error\<close> field or is the success descriptor. An exception raised
  by the probe, by the download, by the file naming or by the conversion is caught and
  turned into the payload \<open>{error: "Error processing video: <message>"}\<close>. For every
  non-empty reference the \<open>/download\<close> handler answers with status 200 and exactly the
  payload \<open>generate\<close> yields.
\<close>

theorem generate_catches_exceptions:
  "(\<exists>p. fst (generate env host_url video_url) = [JObj p]
        \<and> (map_of p ''error'' \<noteq> None
            \<or> map fst p = [''img'', ''direct_link'', ''expiration_timestamp'']))
   \<and> (\<forall>e. extract_info_probe env video_url = Inl e \<longrightarrow>
         fst (generate env host_url video_url)
           = [JObj [(''error'', JStr (''Error processing video: '' @ str_exn e))]])
   \<and> (\<forall>info e. extract_info_probe env video_url = Inr info \<and> duration_admitted (duration info)
           \<and> extract_info_download env video_url = Inl e \<longrightarrow>
         fst (generate env host_url video_url)
           = [JObj [(''error'', JStr (''Error processing video: '' @ str_exn e))]])
   \<and> (\<forall>info info_dl e. extract_info_probe env video_url = Inr info \<and> duration_admitted (duration info)
           \<and> extract_info_download env video_url = Inr info_dl
           \<and> prepare_filename env info_dl = Inl e \<longrightarrow>
         fst (generate env host_url video_url)
           = [JObj [(''error'', JStr (''Error processing video: '' @ str_exn e))]])
   \<and> (\<forall>info info_dl path e. extract_info_probe env video_url = Inr info \<and> duration_admitted (duration info)
           \<and> extract_info_download env video_url = Inr info_dl
           \<and> prepare_filename env info_dl = Inr path
           \<and> compress_audio env (''audios/'' @ os_path_basename (fst (os_path_splitext path)) @ ''.mp3'')
               = Inl e \<longrightarrow>
         fst (generate env host_url video_url)
           = [JObj [(''error'', JStr (''Error processing video: '' @ str_exn e))]])
   \<and> (video_url \<noteq> [] \<longrightarrow>
         j_status (fst (download_audio env base_url (Some video_url))) = 200
         \<and> j_chunks (fst (download_audio env base_url (Some video_url)))
             = fst (generate env (base_url @ ''/'') video_url))"
proof (intro conjI allI impI)
  show "\<exists>p. fst (generate env host_url video_url) = [JObj p]
        \<and> (map_of p ''error'' \<noteq> None
            \<or> map fst p = [''img'', ''direct_link'', ''expiration_timestamp''])"
    by (rule generate_one_chunk)
qed (auto simp: generate_def download_audio_def error_payload_def Let_def split: prod.splits)

text \<open>The theorem at an extractor whose download raises.\<close>

theorem generate_catches_exceptions_witness:
  "fst (generate env_download_fails ''http://host/download/'' ''v'')
     = [JObj [(''error'', JStr ''Error processing video: HTTP Error 403: Forbidden'')]]
   \<and> j_status (fst (download_audio env_download_fails ''http://host/download'' (Some ''v''))) = 200
   \<and> j_chunks (fst (download_audio env_download_fails ''http://host/download'' (Some ''v'')))
       = [JObj [(''error'', JStr ''Error processing video: HTTP Error 403: Forbidden'')]]"
proof -
  have p: "extract_info_probe env_download_fails ''v''
             = Inr \<lparr>duration = Some 120, thumbnail = Some ''http://img/t.jpg''\<rparr>"
    by (simp add: env_download_fails_def env_with_duration_def)
  have a: "duration_admitted (duration \<lparr>duration = Some 120, thumbnail = Some ''http://img/t.jpg''\<rparr>)"
    by (simp add: duration_admitted_def)
  have d: "extract_info_download env_download_fails ''v'' = Inl (Exn ''HTTP Error 403: Forbidden'')"
    by (simp add: env_download_fails_def)
  note t = generate_catches_exceptions [of env_download_fails _ "''v''" "''http://host/download''"]
  have g: "\<And>h. fst (generate env_download_fails h ''v'')
     = [JObj [(''error'', JStr (''Error processing video: '' @ str_exn (Exn ''HTTP Error 403: Forbidden'')))]]"
    using t [THEN conjunct2, THEN conjunct2, THEN conjunct1, rule_format] p a d by blast
  have s: "j_status (fst (download_audio env_download_fails ''http://host/download'' (Some ''v''))) = 200
         \<and> j_chunks (fst (download_audio env_download_fails ''http://host/download'' (Some ''v'')))
             = fst (generate env_download_fails (''http://host/download'' @ ''/'') ''v'')"
    using t [THEN conjunct2, THEN conjunct2, THEN conjunct2, THEN conjunct2, THEN conjunct2, rule_format]
    by simp
  from g [of "''http://host/download/''"] g [of "''http://host/download'' @ ''/''"] s
  show ?thesis by simp
qed

subsection \<open>C9: search results\<close>

text \<open>
  Claim C9, as amended. For every non-empty query and every catalog result list in which
  no result has a null duration, the \<open>/search\<close> handler answers with status 200 and a
  \<open>search\<close> array that holds, in catalog order, exactly the results that pass the
  filter of the loop, each mapped to \<open>{title, url, thumbnail}\<close> with the catalog's
  title and link and the first thumbnail URL (or the empty text). A result passes
  exactly when its duration is a text with a single colon whose two parts \<open>int\<close>
  converts, to \<open>M\<close> and \<open>S\<close> say, with \<open>60 * M + S < 300\<close>. In particular a duration
  written as two groups of digits around a colon, zero-padded or not and of at most 4300
  digits each, passes exactly when sixty times the first number plus the second is below
  300: a result of exactly five minutes is left out.
\<close>

theorem search_filters_short_results:
  assumes "q \<noteq> []" and "catalog q = Inr results"
    and "\<forall>v \<in> set results. v_duration v \<noteq> DurationNull"
  shows "search catalog (Some q)
           = \<lparr>j_status = 200,
              j_chunks = [JObj [(''search'', JArr (map search_entry (filter passes_filter results)))]]\<rparr>
       \<and> (\<forall>v. passes_filter v
               = (\<exists>d a b m s. v_duration v = DurationText d \<and> d = a @ '':'' @ b
                    \<and> CHR '':'' \<notin> set a \<and> CHR '':'' \<notin> set b
                    \<and> py_int a = Inr m \<and> py_int b = Inr s \<and> 60 * m + s < 300))
       \<and> (\<forall>ms ss. ms \<noteq> [] \<and> (\<forall>c \<in> set ms. is_digit c) \<and> length ms \<le> int_max_str_digits
                  \<and> ss \<noteq> [] \<and> (\<forall>c \<in> set ss. is_digit c) \<and> length ss \<le> int_max_str_digits \<longrightarrow>
               py_int ms = Inr (decimal_value ms) \<and> py_int ss = Inr (decimal_value ss)
               \<and> duration_short (ms @ '':'' @ ss) = (60 * decimal_value ms + decimal_value ss < 300))
       \<and> (\<forall>v. search_entry v
               = JObj [(''title'', JStr (v_title v)), (''url'', JStr (v_link v)),
                       (''thumbnail'', JStr (if v_thumbnails v \<noteq> [] then hd (v_thumbnails v) else []))])"
proof (intro conjI allI impI)
  have "search_loop results [] = Inr ([] @ map search_entry (filter passes_filter results))"
    using assms(3) by (rule search_loop_spec)
  with assms(1,2) show "search catalog (Some q)
           = \<lparr>j_status = 200,
              j_chunks = [JObj [(''search'', JArr (map search_entry (filter passes_filter results)))]]\<rparr>"
    by (simp add: search_def)
next
  fix v
  show "passes_filter v
               = (\<exists>d a b m s. v_duration v = DurationText d \<and> d = a @ '':'' @ b
                    \<and> CHR '':'' \<notin> set a \<and> CHR '':'' \<notin> set b
                    \<and> py_int a = Inr m \<and> py_int b = Inr s \<and> 60 * m + s < 300)"
  proof (cases "v_duration v")
    case (DurationText d)
    then show ?thesis by (simp add: passes_filter_def duration_short_iff)
  qed (simp_all add: passes_filter_def)
next
  fix ms ss :: string
  assume h: "ms \<noteq> [] \<and> (\<forall>c \<in> set ms. is_digit c) \<and> length ms \<le> int_max_str_digits
                  \<and> ss \<noteq> [] \<and> (\<forall>c \<in> set ss. is_digit c) \<and> length ss \<le> int_max_str_digits"
  then show "py_int ms = Inr (decimal_value ms)" and "py_int ss = Inr (decimal_value ss)"
    by (simp_all add: py_int_digits_ok)
  from h show "duration_short (ms @ '':'' @ ss) = (60 * decimal_value ms + decimal_value ss < 300)"
    by (intro duration_short_digits) simp_all
next
  fix v show "search_entry v
               = JObj [(''title'', JStr (v_title v)), (''url'', JStr (v_link v)),
                       (''thumbnail'', JStr (if v_thumbnails v \<noteq> [] then hd (v_thumbnails v) else []))]"
    by (simp add: search_entry_def)
qed

text \<open>
  The theorem at ten results of which three are longer than five minutes and seven are
  shorter: the array has the seven short ones.
\<close>

theorem search_filters_short_results_witness:
  "length ten_short_results = 10
   \<and> search (\<lambda>q. Inr ten_short_results) (Some ''lofi'')
       = \<lparr>j_status = 200,
          j_chunks = [JObj [(''search'',
            JArr (map search_entry
                   (map video_of [''3:00'', ''0:45'', ''4:59'', ''2:10'', ''3:00'', ''1:00'', ''3:33''])))]]\<rparr>"
proof -
  have q: "''lofi'' \<noteq> []" by simp
  have c: "(\<lambda>q. Inr ten_short_results) ''lofi'' = (Inr ten_short_results :: exn + video list)" by simp
  have n: "\<forall>v \<in> set ten_short_results. v_duration v \<noteq> DurationNull"
    by (simp add: ten_short_results_def video_of_def)
  have f: "filter passes_filter ten_short_results
             = map video_of [''3:00'', ''0:45'', ''4:59'', ''2:10'', ''3:00'', ''1:00'', ''3:33'']"
    by code_simp
  have l: "length ten_short_results = 10" by (simp add: ten_short_results_def)
  from search_filters_short_results [of "''lofi''" "\<lambda>q. Inr ten_short_results" ten_short_results] q c n
  have "search (\<lambda>q. Inr ten_short_results) (Some ''lofi'')
           = \<lparr>j_status = 200,
              j_chunks = [JObj [(''search'', JArr (map search_entry (filter passes_filter ten_short_results)))]]\<rparr>"
    by blast
  with f l show ?thesis by simp
qed

text \<open>
  Ten results of which three exceed five minutes, one being of exactly five minutes
  (\<open>5:00\<close>): the array has six entries, not the seven that do not exceed five minutes.
\<close>

theorem search_five_minutes_counterexample:
  "length ten_results = 10
   \<and> map v_duration ten_results
       = map DurationText [''10:00'', ''3:00'', ''3:00'', ''12:30'', ''3:00'', ''5:00'', ''3:00'', ''3:00'',
                           ''7:15'', ''3:00'']
   \<and> search (\<lambda>q. Inr ten_results) (Some ''lofi'')
       = \<lparr>j_status = 200,
          j_chunks = [JObj [(''search'',
            JArr (map search_entry
                   (map video_of [''3:00'', ''3:00'', ''3:00'', ''3:00'', ''3:00'', ''3:00''])))]]\<rparr>"
  by code_simp

subsection \<open>C10: suffix-only ranges\<close>

text \<open>
  Claim C10. For every header \<open>bytes=-N\<close> with \<open>N\<close> made of digits only, the numeric
  pattern finds no match, so \<open>parse_range_header\<close> returns \<open>(0, file_size - 1)\<close>; and
  for every existing non-empty file \<open>serve_audio\<close> then answers with status 206, the
  range \<open>0\<close> to \<open>size - 1\<close> in \<open>Content-Range\<close>, and the whole file as body, not its
  last \<open>N\<close> bytes and not an error.
\<close>

theorem suffix_range_serves_whole_file:
  assumes "\<forall>c \<in> set n. is_digit c"
  shows "re_search (''bytes=-'' @ n) = None
       \<and> parse_range_header (''bytes=-'' @ n) file_size = Inr (0, file_size - 1)
       \<and> (\<forall>cwd fs filename data.
             \<not> contains ''..'' filename \<and> \<not> startswith filename ''/''
             \<and> fs (os_path_join (os_path_join cwd ''audios'') filename) = Some data \<and> data \<noteq> [] \<longrightarrow>
             (\<exists>r. fst (serve_audio cwd fs filename (Some (''bytes=-'' @ n))) = Inr r
                  \<and> spec_partial_content data 0 (int (length data) - 1) r
                  \<and> body r = data))"
proof -
  have "\<forall>c \<in> set ''bytes=-''. \<not> is_digit c" by (simp add: is_digit_def)
  then have "re_search (''bytes=-'' @ n) = re_search n" by (rule re_search_skip)
  with assms have none: "re_search (''bytes=-'' @ n) = None" by (simp add: re_search_digits)
  then have full: "\<And>size. parse_range_header (''bytes=-'' @ n) size = Inr (0, size - 1)"
    by (rule parse_no_match)
  have served: "\<forall>cwd fs filename data.
             \<not> contains ''..'' filename \<and> \<not> startswith filename ''/''
             \<and> fs (os_path_join (os_path_join cwd ''audios'') filename) = Some data \<and> data \<noteq> [] \<longrightarrow>
             (\<exists>r. fst (serve_audio cwd fs filename (Some (''bytes=-'' @ n))) = Inr r
                  \<and> spec_partial_content data 0 (int (length data) - 1) r
                  \<and> body r = data)"
  proof (intro allI impI)
    fix cwd fs filename and data :: bytes
    assume h: "\<not> contains ''..'' filename \<and> \<not> startswith filename ''/''
             \<and> fs (os_path_join (os_path_join cwd ''audios'') filename) = Some data \<and> data \<noteq> []"
    let ?p = "os_path_join (os_path_join cwd ''audios'') filename"
    let ?r = "headers_set ''Content-Type'' ''audio/mpeg''
                 (headers_set ''Access-Control-Allow-Methods'' ''GET''
                   (headers_set ''Access-Control-Allow-Origin'' ''*''
                     (make_partial_response fs ?p 0 (int (length data) - 1) (int (length data)))))"
    from h have pos: "0 < length data" by simp
    have "spec_partial_content data 0 (int (length data) - 1)
            (make_partial_response fs ?p 0 (int (length data) - 1) (int (length data)))"
      using h pos by (intro make_partial_response_valid) simp_all
    then have sp: "spec_partial_content data 0 (int (length data) - 1) ?r"
      by (simp add: spec_partial_content_cors)
    then have b: "body ?r = data" using pos by (simp add: spec_partial_content_def)
    have "fst (serve_audio cwd fs filename (Some (''bytes=-'' @ n))) = Inr ?r"
      using h full [of "int (length data)"] by (intro serve_audio_range) simp_all
    with sp b show "\<exists>r. fst (serve_audio cwd fs filename (Some (''bytes=-'' @ n))) = Inr r
                  \<and> spec_partial_content data 0 (int (length data) - 1) r
                  \<and> body r = data"
      by blast
  qed
  from none full served show ?thesis by blast
qed

text \<open>The theorem at the header \<open>bytes=-500\<close>.\<close>

theorem suffix_range_serves_whole_file_witness:
  "re_search ''bytes=-500'' = None
   \<and> parse_range_header ''bytes=-500'' 1000 = Inr (0, 999)
   \<and> map_sum id status
       (fst (serve_audio ''/srv'' [''/srv/audios/a.mp3'' \<mapsto> ''hello''] ''a.mp3'' (Some ''bytes=-500'')))
       = Inr 206
   \<and> map_sum id body
       (fst (serve_audio ''/srv'' [''/srv/audios/a.mp3'' \<mapsto> ''hello''] ''a.mp3'' (Some ''bytes=-500'')))
       = Inr ''hello''"
proof -
  have d: "\<forall>c \<in> set ''500''. is_digit c" by (simp add: is_digit_def)
  note t = suffix_range_serves_whole_file [OF d, of 1000]
  have p: "[''/srv/audios/a.mp3'' \<mapsto> ''hello'']
             (os_path_join (os_path_join ''/srv'' ''audios'') ''a.mp3'') = Some ''hello''"
    by (simp add: os_path_join_def)
  have s: "\<not> contains ''..'' ''a.mp3''" "\<not> startswith ''a.mp3'' ''/''" "''hello'' \<noteq> []"
    by (simp_all add: startswith_def)
  from t have "re_search ''bytes=-500'' = None" and "parse_range_header ''bytes=-500'' 1000 = Inr (0, 999)"
    by simp_all
  moreover obtain r
    where "fst (serve_audio ''/srv'' [''/srv/audios/a.mp3'' \<mapsto> ''hello''] ''a.mp3''
                  (Some (''bytes=-'' @ ''500''))) = Inr r"
      and "spec_partial_content ''hello'' 0 (int (length ''hello'') - 1) r" and "body r = ''hello''"
    using t [THEN conjunct2, THEN conjunct2, rule_format,
             of "''a.mp3''" "[''/srv/audios/a.mp3'' \<mapsto> ''hello'']" "''/srv''" "''hello''"] p s
    by blast
  ultimately show ?thesis by (simp add: spec_partial_content_def)
qed

end
